theory Spec2Isabelle
  imports Main "HOL-Library.Word" "HOL-Library.AList" "HOL-Library.Multiset"
begin

section \<open>Data model\<close>

text \<open>
  Byte strings are lists of octets. An address and an internal (LikeChain) ID are both
  carried as their raw content; a well-formed one has 20 bytes.
\<close>

type_synonym bytes = "8 word list"
type_synonym Address = bytes
type_synonym LikeChainID = bytes

text \<open>
  \<^verbatim>\<open>types.Identifier\<close> is a tagged value whose tag may be unset: the accessors
  \<^verbatim>\<open>GetLikeChainID()\<close> and \<^verbatim>\<open>GetAddr()\<close> return nil for the other tag.
\<close>

datatype Identifier = IdLikeChainID LikeChainID | IdAddr Address | IdNotSet

fun GetLikeChainID :: "Identifier \<Rightarrow> LikeChainID option" where
  "GetLikeChainID (IdLikeChainID i) = Some i"
| "GetLikeChainID (IdAddr a) = None"
| "GetLikeChainID IdNotSet = None"

fun GetAddr :: "Identifier \<Rightarrow> Address option" where
  "GetAddr (IdAddr a) = Some a"
| "GetAddr (IdLikeChainID i) = None"
| "GetAddr IdNotSet = None"

text \<open>
  In the source an output's receiver is a \<^verbatim>\<open>*types.Identifier\<close>, and \<^verbatim>\<open>deliver\<close> keys a
  Go map by that pointer. The identity of the pointed-to object is therefore part of the
  model: \<open>To_ptr\<close> names the object holding an output's receiver, \<open>To\<close> is its content.
  Objects of the transaction are \<open>InTx\<close>; the object built by \<^verbatim>\<open>ToIdentifier()\<close> in the
  \<open>i\<close>-th round of the loop is \<open>Allocated i\<close>, different from every other object.
\<close>

datatype IdentifierRef = InTx nat | Allocated nat

record TransferTarget =
  To_ptr :: nat
  To :: Identifier
  Value :: nat
  Remark :: bytes

record TransferTransaction =
  From :: Identifier
  ToList :: "TransferTarget list"
  Nonce :: "64 word"
  Fee :: nat
  Sig :: bytes

datatype TxStatus = TxStatusNotSet | TxStatusFail | TxStatusSuccess

text \<open>
  The state tree, one field per key family of the account model:
  \<^verbatim>\<open>acc/<id>/balance\<close>, \<^verbatim>\<open>acc/<id>/nextNonce\<close>, \<^verbatim>\<open>acc/<id>/addr/<addr>\<close>,
  \<^verbatim>\<open>addr/<addr>/id\<close>, \<^verbatim>\<open>addr/<addr>/unclaimed\<close> and \<^verbatim>\<open>tx/<txHash>/status\<close>.
\<close>

record State =
  acc_balance :: "LikeChainID \<rightharpoonup> int"
  acc_nextNonce :: "LikeChainID \<rightharpoonup> 64 word"
  acc_addr :: "LikeChainID \<Rightarrow> Address set"
  addr_id :: "Address \<rightharpoonup> LikeChainID"
  addr_unclaimed :: "Address \<rightharpoonup> int"
  tx_status :: "bytes \<rightharpoonup> TxStatus"

text \<open>
  The responses of package \<^verbatim>\<open>response\<close> that the transfer handler returns. Codes are
  assigned per kind and phase; only whether a code is zero is used by the handler.
\<close>

datatype R =
    Success
  | TransferCheckTxInvalidFormat
  | TransferCheckTxSenderNotRegistered
  | TransferCheckTxInvalidSignature
  | TransferCheckTxInvalidNonce
  | TransferCheckTxDuplicated
  | TransferCheckTxInvalidReceiver
  | TransferCheckTxNotEnoughBalance
  | TransferDeliverTxInvalidFormat
  | TransferDeliverTxSenderNotRegistered
  | TransferDeliverTxInvalidSignature
  | TransferDeliverTxInvalidNonce
  | TransferDeliverTxDuplicated
  | TransferDeliverTxInvalidReceiver
  | TransferDeliverTxNotEnoughBalance

datatype ErrorKind =
    InvalidFormat | SenderNotRegistered | InvalidSignature | InvalidNonce
  | Duplicated | InvalidReceiver | NotEnoughBalance

text \<open>Modelled from the spec: the error taxonomy of the missing package \<^verbatim>\<open>response\<close>,
  kinds not codes, and the convention that return code 0 means success.\<close>

fun kind :: "R \<Rightarrow> ErrorKind option" where
  "kind Success = None"
| "kind TransferCheckTxInvalidFormat = Some InvalidFormat"
| "kind TransferCheckTxSenderNotRegistered = Some SenderNotRegistered"
| "kind TransferCheckTxInvalidSignature = Some InvalidSignature"
| "kind TransferCheckTxInvalidNonce = Some InvalidNonce"
| "kind TransferCheckTxDuplicated = Some Duplicated"
| "kind TransferCheckTxInvalidReceiver = Some InvalidReceiver"
| "kind TransferCheckTxNotEnoughBalance = Some NotEnoughBalance"
| "kind TransferDeliverTxInvalidFormat = Some InvalidFormat"
| "kind TransferDeliverTxSenderNotRegistered = Some SenderNotRegistered"
| "kind TransferDeliverTxInvalidSignature = Some InvalidSignature"
| "kind TransferDeliverTxInvalidNonce = Some InvalidNonce"
| "kind TransferDeliverTxDuplicated = Some Duplicated"
| "kind TransferDeliverTxInvalidReceiver = Some InvalidReceiver"
| "kind TransferDeliverTxNotEnoughBalance = Some NotEnoughBalance"

definition Code_nonzero :: "R \<Rightarrow> bool" where
  "Code_nonzero r = (r \<noteq> Success)"

section \<open>Account model\<close>

text \<open>Modelled from the spec: package \<^verbatim>\<open>account\<close> is missing. An internal ID has an
  account when it owns at least one bound address.\<close>

definition IsLikeChainIDRegistered :: "State \<Rightarrow> LikeChainID \<Rightarrow> bool" where
  "IsLikeChainIDRegistered state i = (acc_addr state i \<noteq> {})"

text \<open>Modelled from the spec: \<^verbatim>\<open>account.IsLikeChainIDHasAddress\<close>, the membership marker
  \<^verbatim>\<open>acc/<id>/addr/<addr>\<close>.\<close>

definition IsLikeChainIDHasAddress :: "State \<Rightarrow> LikeChainID \<Rightarrow> Address \<Rightarrow> bool" where
  "IsLikeChainIDHasAddress state i a = (a \<in> acc_addr state i)"

text \<open>Modelled from the spec: \<^verbatim>\<open>account.IdentifierToLikeChainID\<close> (\<open>resolveToID\<close>). An
  address resolves through the reverse index; an ID resolves to itself when it has an
  account, and to nothing otherwise (the handler returns \<open>InvalidReceiver\<close> for a
  receiver that is an ID with no account).\<close>

fun IdentifierToLikeChainID :: "State \<Rightarrow> Identifier \<Rightarrow> LikeChainID option" where
  "IdentifierToLikeChainID state (IdLikeChainID i) =
     (if IsLikeChainIDRegistered state i then Some i else None)"
| "IdentifierToLikeChainID state (IdAddr a) = addr_id state a"
| "IdentifierToLikeChainID state IdNotSet = None"

text \<open>Modelled from the spec: \<^verbatim>\<open>account.FetchNextNonce\<close> and
  \<^verbatim>\<open>account.IncrementNextNonce\<close> on the unsigned 64-bit counter \<^verbatim>\<open>acc/<id>/nextNonce\<close>;
  an absent key reads as zero.\<close>

definition FetchNextNonce :: "State \<Rightarrow> LikeChainID \<Rightarrow> 64 word" where
  "FetchNextNonce state i = (case acc_nextNonce state i of Some n \<Rightarrow> n | None \<Rightarrow> 0)"

definition IncrementNextNonce :: "State \<Rightarrow> LikeChainID \<Rightarrow> State" where
  "IncrementNextNonce state i =
     state\<lparr>acc_nextNonce := (acc_nextNonce state)(i \<mapsto> FetchNextNonce state i + 1)\<rparr>"

text \<open>Modelled from the spec: \<^verbatim>\<open>account.FetchBalance\<close>, \<^verbatim>\<open>account.AddBalance\<close> and
  \<^verbatim>\<open>account.MinusBalance\<close> (\<open>credit\<close> and \<open>debit\<close>). The balance of an ID is kept under
  \<^verbatim>\<open>acc/<id>/balance\<close>; the balance of an address is that of the ID it is bound to, and
  for an address with no binding it is the unclaimed balance kept under
  \<^verbatim>\<open>addr/<addr>/unclaimed\<close>. An absent key reads as zero.\<close>

datatype BalanceKey = AccBalance LikeChainID | AddrUnclaimed Address

fun balanceKey :: "State \<Rightarrow> Identifier \<Rightarrow> BalanceKey option" where
  "balanceKey state (IdLikeChainID i) = Some (AccBalance i)"
| "balanceKey state (IdAddr a) =
     (case addr_id state a of Some i \<Rightarrow> Some (AccBalance i) | None \<Rightarrow> Some (AddrUnclaimed a))"
| "balanceKey state IdNotSet = None"

fun readBalance :: "State \<Rightarrow> BalanceKey option \<Rightarrow> int" where
  "readBalance state (Some (AccBalance i)) =
     (case acc_balance state i of Some b \<Rightarrow> b | None \<Rightarrow> 0)"
| "readBalance state (Some (AddrUnclaimed a)) =
     (case addr_unclaimed state a of Some b \<Rightarrow> b | None \<Rightarrow> 0)"
| "readBalance state None = 0"

fun writeBalance :: "State \<Rightarrow> BalanceKey option \<Rightarrow> int \<Rightarrow> State" where
  "writeBalance state (Some (AccBalance i)) b =
     state\<lparr>acc_balance := (acc_balance state)(i \<mapsto> b)\<rparr>"
| "writeBalance state (Some (AddrUnclaimed a)) b =
     state\<lparr>addr_unclaimed := (addr_unclaimed state)(a \<mapsto> b)\<rparr>"
| "writeBalance state None b = state"

definition FetchBalance :: "State \<Rightarrow> Identifier \<Rightarrow> int" where
  "FetchBalance state iden = readBalance state (balanceKey state iden)"

definition AddBalance :: "State \<Rightarrow> Identifier \<Rightarrow> int \<Rightarrow> State" where
  "AddBalance state iden amount =
     writeBalance state (balanceKey state iden) (FetchBalance state iden + amount)"

definition MinusBalance :: "State \<Rightarrow> Identifier \<Rightarrow> int \<Rightarrow> State" where
  "MinusBalance state iden amount =
     writeBalance state (balanceKey state iden) (FetchBalance state iden - amount)"

section \<open>Format checks of package types\<close>

text \<open>Modelled from the spec: \<^verbatim>\<open>IsValidFormat\<close> of an identifier (a 20-byte address or a
  20-byte internal ID), of a transfer output (its receiver is well-formed; the value is
  an unsigned big integer by its type) and of a signature (65 bytes).\<close>

fun Identifier_IsValidFormat :: "Identifier \<Rightarrow> bool" where
  "Identifier_IsValidFormat (IdLikeChainID i) = (length i = 20)"
| "Identifier_IsValidFormat (IdAddr a) = (length a = 20)"
| "Identifier_IsValidFormat IdNotSet = False"

definition TransferTarget_IsValidFormat :: "TransferTarget \<Rightarrow> bool" where
  "TransferTarget_IsValidFormat target = Identifier_IsValidFormat (To target)"

definition Signature_IsValidFormat :: "bytes \<Rightarrow> bool" where
  "Signature_IsValidFormat sig = (length sig = 65)"

section \<open>The transfer handler\<close>

text \<open>
  The handlers are registered for transfer transactions and are given one; the panic of
  the source on a transaction of another kind has no counterpart here.
\<close>

definition maxRemarkSize :: nat where
  "maxRemarkSize = 4096"

text \<open>The loop over \<^verbatim>\<open>tx.ToList\<close> in \<^verbatim>\<open>validateTransferTransactionFormat\<close>.\<close>

fun validateTargets :: "TransferTarget list \<Rightarrow> bool" where
  "validateTargets [] = True"
| "validateTargets (target # rest) =
     (if \<not> TransferTarget_IsValidFormat target then False
      else if length (Remark target) > maxRemarkSize then False
      else validateTargets rest)"

definition validateTransferTransactionFormat :: "State \<Rightarrow> TransferTransaction \<Rightarrow> bool" where
  "validateTransferTransactionFormat state tx =
     (if \<not> Identifier_IsValidFormat (From tx) then False
      else if length (ToList tx) > 0 then
        (if \<not> validateTargets (ToList tx) then False
         else if \<not> Signature_IsValidFormat (Sig tx) then False
         else True)
      else False)"

text \<open>
  Signature recovery (Keccak-256 over the signing message, then secp256k1 recovery) is a
  parameter: \<open>recover tx\<close> is the result of
  \<^verbatim>\<open>utils.RecoverSignature(tx.GenerateSigningMessageHash(), tx.Sig)\<close>, \<open>None\<close> when it
  returns an error.
\<close>

type_synonym Recover = "TransferTransaction \<Rightarrow> Address option"

definition validateTransferSignature :: "Recover \<Rightarrow> State \<Rightarrow> TransferTransaction \<Rightarrow> bool" where
  "validateTransferSignature recover state tx =
     (case recover tx of
        None \<Rightarrow> False
      | Some sigAddr \<Rightarrow>
          (case GetAddr (From tx) of
             Some senderAddr \<Rightarrow> senderAddr = sigAddr
           | None \<Rightarrow>
               (case GetLikeChainID (From tx) of
                  Some i \<Rightarrow> IsLikeChainIDHasAddress state i sigAddr
                | None \<Rightarrow> False)))"

text \<open>The loop of \<^verbatim>\<open>checkTransfer\<close>: \<open>Some r\<close> is an early return, \<open>None\<close> means the
  loop ran to its end.\<close>

fun checkTransfer_loop ::
  "State \<Rightarrow> int \<Rightarrow> TransferTarget list \<Rightarrow> int \<Rightarrow> R option" where
  "checkTransfer_loop state senderBalance [] total0 = None"
| "checkTransfer_loop state senderBalance (target # rest) total0 =
     (if GetLikeChainID (To target) \<noteq> None
         \<and> IdentifierToLikeChainID state (To target) = None
      then Some TransferCheckTxInvalidReceiver
      else let amount = int (Value target); total1 = total0 + amount in
        if senderBalance < total1 then Some TransferCheckTxNotEnoughBalance
        else checkTransfer_loop state senderBalance rest total1)"

definition checkTransfer :: "Recover \<Rightarrow> State \<Rightarrow> TransferTransaction \<Rightarrow> R" where
  "checkTransfer recover state tx =
     (if \<not> validateTransferTransactionFormat state tx then TransferCheckTxInvalidFormat
      else case IdentifierToLikeChainID state (From tx) of
        None \<Rightarrow> TransferCheckTxSenderNotRegistered
      | Some senderID \<Rightarrow>
          if \<not> validateTransferSignature recover state tx then TransferCheckTxInvalidSignature
          else let nextNonce = FetchNextNonce state senderID in
            if Nonce tx > nextNonce then TransferCheckTxInvalidNonce
            else if Nonce tx < nextNonce then TransferCheckTxDuplicated
            else let senderBalance = FetchBalance state (IdLikeChainID senderID) in
              (case checkTransfer_loop state senderBalance (ToList tx) (int (Fee tx)) of
                 Some r \<Rightarrow> r
               | None \<Rightarrow> Success))"

text \<open>
  The first loop of \<^verbatim>\<open>deliver\<close>. \<open>transfers\<close> is the Go map from identifier objects to
  amounts, kept with the content of each key; writing under a key already present
  replaces its amount. \<open>n\<close> counts the rounds, to name the objects allocated.
\<close>

type_synonym Transfers = "(IdentifierRef \<times> (Identifier \<times> int)) list"

fun deliver_loop ::
  "State \<Rightarrow> int \<Rightarrow> nat \<Rightarrow> TransferTarget list \<Rightarrow> int \<Rightarrow> Transfers \<Rightarrow> R + (int \<times> Transfers)" where
  "deliver_loop state senderBalance n [] total0 transfers = Inr (total0, transfers)"
| "deliver_loop state senderBalance n (target # rest) total0 transfers =
     (if GetLikeChainID (To target) \<noteq> None
         \<and> IdentifierToLikeChainID state (To target) = None
      then Inl TransferDeliverTxInvalidReceiver
      else let amount = int (Value target); total1 = total0 + amount in
        if senderBalance < total1 then Inl TransferDeliverTxNotEnoughBalance
        else let targetIden =
                   (case IdentifierToLikeChainID state (To target) of
                      Some targetID \<Rightarrow> (Allocated n, IdLikeChainID targetID)
                    | None \<Rightarrow> (InTx (To_ptr target), To target))
          in deliver_loop state senderBalance (Suc n) rest total1
               (AList.update (fst targetIden) (snd targetIden, amount) transfers))"

text \<open>The second loop of \<^verbatim>\<open>deliver\<close>: one \<^verbatim>\<open>AddBalance\<close> per entry of the map. Go
  visits the entries in no fixed order; the model takes them as they were written, and
  the result is shown below not to depend on the order.\<close>

fun credit_all :: "State \<Rightarrow> Transfers \<Rightarrow> State" where
  "credit_all state [] = state"
| "credit_all state ((key, (iden, amount)) # rest) = credit_all (AddBalance state iden amount) rest"

definition deliver ::
  "Recover \<Rightarrow> State \<Rightarrow> TransferTransaction \<Rightarrow> bytes \<Rightarrow> R \<times> State" where
  "deliver recover state tx txHash =
     (if \<not> validateTransferTransactionFormat state tx then (TransferDeliverTxInvalidFormat, state)
      else case IdentifierToLikeChainID state (From tx) of
        None \<Rightarrow> (TransferDeliverTxSenderNotRegistered, state)
      | Some senderID \<Rightarrow>
          if \<not> validateTransferSignature recover state tx
          then (TransferDeliverTxInvalidSignature, state)
          else let nextNonce = FetchNextNonce state senderID in
            if Nonce tx > nextNonce then (TransferDeliverTxInvalidNonce, state)
            else if Nonce tx < nextNonce then (TransferDeliverTxDuplicated, state)
            else let state1 = IncrementNextNonce state senderID;
                     senderIden = IdLikeChainID senderID;
                     senderBalance = FetchBalance state1 senderIden in
              (case deliver_loop state1 senderBalance 0 (ToList tx) (int (Fee tx)) [] of
                 Inl r \<Rightarrow> (r, state1)
               | Inr (total0, transfers) \<Rightarrow>
                   (Success, MinusBalance (credit_all state1 transfers) senderIden total0)))"

text \<open>Modelled from the spec: \<^verbatim>\<open>types.BytesToTxStatus\<close> reads an absent status record as
  \<open>NotSet\<close>.\<close>

definition GetStatus :: "State \<Rightarrow> bytes \<Rightarrow> TxStatus" where
  "GetStatus state txHash =
     (case tx_status state txHash of Some st \<Rightarrow> st | None \<Rightarrow> TxStatusNotSet)"

definition SetStatus :: "State \<Rightarrow> bytes \<Rightarrow> TxStatus \<Rightarrow> State" where
  "SetStatus state txHash status = state\<lparr>tx_status := (tx_status state)(txHash \<mapsto> status)\<rparr>"

definition deliverTransfer ::
  "Recover \<Rightarrow> State \<Rightarrow> TransferTransaction \<Rightarrow> bytes \<Rightarrow> R \<times> State" where
  "deliverTransfer recover state tx txHash =
     (let (r, state') = deliver recover state tx txHash;
          status = (if Code_nonzero r then TxStatusFail else TxStatusSuccess);
          prevStatus = GetStatus state' txHash
      in if prevStatus = TxStatusNotSet then (r, SetStatus state' txHash status)
         else (r, state'))"

section \<open>The accounts of the transfer tests\<close>

text \<open>
  Accounts A, B and C with balances 100, 200 and 300 and next nonce 1, each bound to one
  address, and an address X with no binding, as in \<^verbatim>\<open>TestTransfer\<close>. Signature recovery
  is fixed to return the address named.
\<close>

definition idA :: LikeChainID where "idA = replicate 20 1"
definition idB :: LikeChainID where "idB = replicate 20 2"
definition idC :: LikeChainID where "idC = replicate 20 3"
definition addrA :: Address where "addrA = replicate 20 10"
definition addrB :: Address where "addrB = replicate 20 11"
definition addrC :: Address where "addrC = replicate 20 12"
definition addrX :: Address where "addrX = replicate 20 15"

definition abc_state :: State where
  "abc_state = \<lparr>
     acc_balance = [idA \<mapsto> 100, idB \<mapsto> 200, idC \<mapsto> 300],
     acc_nextNonce = [idA \<mapsto> 1, idB \<mapsto> 1, idC \<mapsto> 1],
     acc_addr = (\<lambda>i. {})(idA := {addrA}, idB := {addrB}, idC := {addrC}),
     addr_id = [addrA \<mapsto> idA, addrB \<mapsto> idB, addrC \<mapsto> idC],
     addr_unclaimed = Map.empty,
     tx_status = Map.empty \<rparr>"

definition signed_by :: "Address \<Rightarrow> Recover" where
  "signed_by a = (\<lambda>tx. Some a)"

definition sig65 :: bytes where "sig65 = replicate 65 0"

definition TransferOutput :: "nat \<Rightarrow> Identifier \<Rightarrow> nat \<Rightarrow> bytes \<Rightarrow> TransferTarget" where
  "TransferOutput p iden v r = \<lparr>To_ptr = p, To = iden, Value = v, Remark = r\<rparr>"

definition transfer_from_A :: "TransferTarget list \<Rightarrow> 64 word \<Rightarrow> TransferTransaction" where
  "transfer_from_A outs n =
     \<lparr>From = IdLikeChainID idA, ToList = outs, Nonce = n, Fee = 0, Sig = sig65\<rparr>"

section \<open>Notions used to state the properties\<close>

text \<open>
  The sum of the output values of a list of outputs, the running sum of fee and output
  values over the first \<open>k\<close> outputs, and a receiver that is an internal ID with no
  account.
\<close>

definition values_sum :: "TransferTarget list \<Rightarrow> int" where
  "values_sum ts = sum_list (map (\<lambda>t. int (Value t)) ts)"

definition prefix_total :: "nat \<Rightarrow> TransferTarget list \<Rightarrow> nat \<Rightarrow> int" where
  "prefix_total fee ts k = int fee + values_sum (take k ts)"

fun receiver_without_account :: "State \<Rightarrow> Identifier \<Rightarrow> bool" where
  "receiver_without_account state (IdLikeChainID i) = (\<not> IsLikeChainIDRegistered state i)"
| "receiver_without_account state (IdAddr a) = False"
| "receiver_without_account state IdNotSet = False"

text \<open>The key and content under which round \<open>n\<close> of the first loop of \<^verbatim>\<open>deliver\<close>
  writes into the map \<^verbatim>\<open>transfers\<close>.\<close>

definition targetIden :: "State \<Rightarrow> nat \<Rightarrow> TransferTarget \<Rightarrow> IdentifierRef \<times> Identifier" where
  "targetIden s n t =
     (case IdentifierToLikeChainID s (To t) of
        Some targetID \<Rightarrow> (Allocated n, IdLikeChainID targetID)
      | None \<Rightarrow> (InTx (To_ptr t), To t))"

text \<open>An internal ID that has no account.\<close>

definition idZ :: LikeChainID where "idZ = replicate 20 9"


text \<open>The sum of the values of the outputs whose receiver's balance is kept under key
  \<open>k\<close>: every output to that receiver counts, whatever form its identifier has.\<close>

definition credited :: "State \<Rightarrow> BalanceKey \<Rightarrow> TransferTarget list \<Rightarrow> int" where
  "credited state k ts =
     sum_list (map (\<lambda>t. if balanceKey state (To t) = Some k then int (Value t) else 0) ts)"

text \<open>The entries that the first loop of \<^verbatim>\<open>deliver\<close> writes, round by round.\<close>

fun loop_entries :: "State \<Rightarrow> nat \<Rightarrow> TransferTarget list \<Rightarrow> Transfers" where
  "loop_entries s n [] = []"
| "loop_entries s n (t # ts) =
     (fst (targetIden s n t), (snd (targetIden s n t), int (Value t))) # loop_entries s (Suc n) ts"

section \<open>Queries and registration\<close>

record AccountInfoRes =
  ID :: bytes
  Balance :: int
  NextNonce :: "64 word"

datatype QueryError = QueryInvalidIdentifier

text \<open>Modelled from the spec: the query \<^verbatim>\<open>account_info\<close> of the missing package
  \<^verbatim>\<open>query\<close>. Its input is an identifier (\<open>IdNotSet\<close> when the string parses as
  neither form); it returns id, balance and next nonce of the account the identifier
  resolves to, and fails with InvalidIdentifier when it resolves to none.\<close>

definition account_info :: "State \<Rightarrow> Identifier \<Rightarrow> QueryError + AccountInfoRes" where
  "account_info state iden =
     (case IdentifierToLikeChainID state iden of
        None \<Rightarrow> Inl QueryInvalidIdentifier
      | Some i \<Rightarrow> Inr \<lparr>ID = i, Balance = FetchBalance state (IdLikeChainID i),
                       NextNonce = FetchNextNonce state i\<rparr>)"

text \<open>Modelled from the spec: the query \<^verbatim>\<open>address_info\<close> of the missing package
  \<^verbatim>\<open>query\<close>. It returns the account bound to the address, and for an address with no
  binding the synthetic record with empty id, the unclaimed balance and next nonce 0.
  The spec does not say what is returned for an address with neither binding nor
  unclaimed balance; here its absent balance reads as zero.\<close>

definition address_info :: "State \<Rightarrow> Address \<Rightarrow> AccountInfoRes" where
  "address_info state a =
     (case addr_id state a of
        Some i \<Rightarrow> \<lparr>ID = i, Balance = FetchBalance state (IdLikeChainID i),
                   NextNonce = FetchNextNonce state i\<rparr>
      | None \<Rightarrow> \<lparr>ID = [], Balance = FetchBalance state (IdAddr a), NextNonce = 0\<rparr>)"

text \<open>Modelled from the spec: the mutation of a delivered Register of the missing
  register handler. The new internal ID (the first 20 bytes of the hash of the
  transaction) is given; its balance starts at 0 plus whatever unclaimed balance the
  address holds, its next nonce at 1, the address is bound, and the unclaimed balance is
  taken from the address.\<close>

definition register_account :: "State \<Rightarrow> Address \<Rightarrow> LikeChainID \<Rightarrow> State" where
  "register_account state a newID =
     state\<lparr>acc_balance := (acc_balance state)
                (newID \<mapsto> 0 + (case addr_unclaimed state a of Some b \<Rightarrow> b | None \<Rightarrow> 0)),
            acc_nextNonce := (acc_nextNonce state)(newID \<mapsto> 1),
            acc_addr := (acc_addr state)(newID := insert a (acc_addr state newID)),
            addr_id := (addr_id state)(a \<mapsto> newID),
            addr_unclaimed := (addr_unclaimed state)(a := None)\<rparr>"

text \<open>The internal ID that the address X receives when it registers.\<close>

definition idX :: LikeChainID where "idX = replicate 20 4"

section \<open>Versioned state store\<close>










section \<open>Unfolding rules for evaluation\<close>

lemmas abc_defs =
  idA_def idB_def idC_def addrA_def addrB_def addrC_def addrX_def abc_state_def
  signed_by_def sig65_def TransferOutput_def transfer_from_A_def

lemmas handler_defs =
  checkTransfer_def deliver_def deliverTransfer_def validateTransferTransactionFormat_def
  validateTransferSignature_def TransferTarget_IsValidFormat_def Signature_IsValidFormat_def
  maxRemarkSize_def IsLikeChainIDRegistered_def IsLikeChainIDHasAddress_def
  FetchNextNonce_def IncrementNextNonce_def FetchBalance_def AddBalance_def MinusBalance_def
  GetStatus_def SetStatus_def Code_nonzero_def Let_def

section \<open>Format validation\<close>

lemma validateTargets_iff:
  "validateTargets ts \<longleftrightarrow>
     (\<forall>t \<in> set ts. TransferTarget_IsValidFormat t \<and> length (Remark t) \<le> maxRemarkSize)"
  by (induction ts) auto

lemma format_iff:
  "validateTransferTransactionFormat state tx \<longleftrightarrow>
     Identifier_IsValidFormat (From tx) \<and> ToList tx \<noteq> [] \<and>
     (\<forall>t \<in> set (ToList tx). TransferTarget_IsValidFormat t \<and> length (Remark t) \<le> 4096) \<and>
     Signature_IsValidFormat (Sig tx)"
  by (auto simp: validateTransferTransactionFormat_def validateTargets_iff maxRemarkSize_def)

lemma checkTransfer_bad_format:
  "\<not> validateTransferTransactionFormat state tx \<Longrightarrow>
   checkTransfer recover state tx = TransferCheckTxInvalidFormat"
  by (simp add: checkTransfer_def)

lemma deliver_bad_format:
  "\<not> validateTransferTransactionFormat state tx \<Longrightarrow>
   deliver recover state tx txHash = (TransferDeliverTxInvalidFormat, state)"
  by (simp add: deliver_def)

lemma SetStatus_fields [simp]:
  "acc_balance (SetStatus s h st) = acc_balance s"
  "acc_nextNonce (SetStatus s h st) = acc_nextNonce s"
  "acc_addr (SetStatus s h st) = acc_addr s"
  "addr_id (SetStatus s h st) = addr_id s"
  "addr_unclaimed (SetStatus s h st) = addr_unclaimed s"
  by (simp_all add: SetStatus_def)

lemma deliverTransfer_result:
  "fst (deliverTransfer recover state tx txHash) = fst (deliver recover state tx txHash)"
  by (simp add: deliverTransfer_def Let_def split: prod.splits)

lemma deliverTransfer_fields:
  "acc_balance (snd (deliverTransfer recover state tx txHash))
     = acc_balance (snd (deliver recover state tx txHash))"
  "acc_nextNonce (snd (deliverTransfer recover state tx txHash))
     = acc_nextNonce (snd (deliver recover state tx txHash))"
  "acc_addr (snd (deliverTransfer recover state tx txHash))
     = acc_addr (snd (deliver recover state tx txHash))"
  "addr_id (snd (deliverTransfer recover state tx txHash))
     = addr_id (snd (deliver recover state tx txHash))"
  "addr_unclaimed (snd (deliverTransfer recover state tx txHash))
     = addr_unclaimed (snd (deliver recover state tx txHash))"
  by (simp_all add: deliverTransfer_def Let_def split: prod.splits)

text \<open>
  C7. Format validation of a Transfer passes exactly when the sender identifier is
  well-formed, there is at least one output, every output is well-formed with a remark of
  at most 4096 bytes, and the signature is well-formed. A transaction with a remark of
  more than 4096 bytes is rejected with the invalid-format response by CheckTx and by
  DeliverTx, and no balance and no next nonce changes.
\<close>

theorem transfer_format_validation:
  "(validateTransferTransactionFormat state tx \<longleftrightarrow>
      Identifier_IsValidFormat (From tx) \<and> ToList tx \<noteq> [] \<and>
      (\<forall>t \<in> set (ToList tx). TransferTarget_IsValidFormat t \<and> length (Remark t) \<le> 4096) \<and>
      Signature_IsValidFormat (Sig tx))
   \<and> ((\<exists>t \<in> set (ToList tx). length (Remark t) > 4096) \<longrightarrow>
        checkTransfer recover state tx = TransferCheckTxInvalidFormat \<and>
        fst (deliverTransfer recover state tx txHash) = TransferDeliverTxInvalidFormat \<and>
        acc_balance (snd (deliverTransfer recover state tx txHash)) = acc_balance state \<and>
        addr_unclaimed (snd (deliverTransfer recover state tx txHash)) = addr_unclaimed state \<and>
        acc_nextNonce (snd (deliverTransfer recover state tx txHash)) = acc_nextNonce state)"
proof (intro conjI impI)
  show "validateTransferTransactionFormat state tx \<longleftrightarrow>
      Identifier_IsValidFormat (From tx) \<and> ToList tx \<noteq> [] \<and>
      (\<forall>t \<in> set (ToList tx). TransferTarget_IsValidFormat t \<and> length (Remark t) \<le> 4096) \<and>
      Signature_IsValidFormat (Sig tx)"
    by (rule format_iff)
next
  assume "\<exists>t \<in> set (ToList tx). length (Remark t) > 4096"
  then have bad: "\<not> validateTransferTransactionFormat state tx"
    by (fastforce simp: format_iff)
  show "checkTransfer recover state tx = TransferCheckTxInvalidFormat"
    using bad by (rule checkTransfer_bad_format)
  show "fst (deliverTransfer recover state tx txHash) = TransferDeliverTxInvalidFormat"
    using bad by (simp add: deliverTransfer_result deliver_bad_format)
  show "acc_balance (snd (deliverTransfer recover state tx txHash)) = acc_balance state"
    using bad by (simp add: deliverTransfer_fields deliver_bad_format)
  show "addr_unclaimed (snd (deliverTransfer recover state tx txHash)) = addr_unclaimed state"
    using bad by (simp add: deliverTransfer_fields deliver_bad_format)
  show "acc_nextNonce (snd (deliverTransfer recover state tx txHash)) = acc_nextNonce state"
    using bad by (simp add: deliverTransfer_fields deliver_bad_format)
qed

text \<open>
  The remark boundary on the test accounts: A pays 1 to B. With a remark of 4097 bytes
  the transfer is rejected as ill-formed and A keeps balance 100 and next nonce 1; with a
  remark of exactly 4096 bytes the format is accepted and the delivery succeeds.
\<close>

theorem transfer_format_validation_witness:
  "(\<exists>t \<in> set (ToList (transfer_from_A [TransferOutput 0 (IdLikeChainID idB) 1 (replicate 4097 0)] 1)).
      length (Remark t) > 4096)
   \<and> checkTransfer (signed_by addrA) abc_state
        (transfer_from_A [TransferOutput 0 (IdLikeChainID idB) 1 (replicate 4097 0)] 1)
       = TransferCheckTxInvalidFormat
   \<and> fst (deliverTransfer (signed_by addrA) abc_state
        (transfer_from_A [TransferOutput 0 (IdLikeChainID idB) 1 (replicate 4097 0)] 1) [7])
       = TransferDeliverTxInvalidFormat
   \<and> acc_balance (snd (deliverTransfer (signed_by addrA) abc_state
        (transfer_from_A [TransferOutput 0 (IdLikeChainID idB) 1 (replicate 4097 0)] 1) [7])) idA
       = Some 100
   \<and> acc_nextNonce (snd (deliverTransfer (signed_by addrA) abc_state
        (transfer_from_A [TransferOutput 0 (IdLikeChainID idB) 1 (replicate 4097 0)] 1) [7])) idA
       = Some 1
   \<and> validateTransferTransactionFormat abc_state
        (transfer_from_A [TransferOutput 0 (IdLikeChainID idB) 1 (replicate 4096 0)] 1)
   \<and> fst (deliverTransfer (signed_by addrA) abc_state
        (transfer_from_A [TransferOutput 0 (IdLikeChainID idB) 1 (replicate 4096 0)] 1) [7])
       = Success"
proof -
  let ?long = "transfer_from_A [TransferOutput 0 (IdLikeChainID idB) 1 (replicate 4097 0)] 1"
  let ?edge = "transfer_from_A [TransferOutput 0 (IdLikeChainID idB) 1 (replicate 4096 0)] 1"
  have ex: "\<exists>t \<in> set (ToList ?long). length (Remark t) > 4096"
    by (simp add: abc_defs)
  have A: "acc_balance abc_state idA = Some 100" "acc_nextNonce abc_state idA = Some 1"
    by (simp_all add: abc_defs)
  have fmt: "validateTransferTransactionFormat abc_state ?edge"
    using transfer_format_validation [of abc_state ?edge "signed_by addrA" "[7]"]
    by (simp add: abc_defs TransferTarget_IsValidFormat_def Signature_IsValidFormat_def)
  have ok: "fst (deliverTransfer (signed_by addrA) abc_state ?edge [7]) = Success"
    by (simp add: abc_defs handler_defs)
  show ?thesis
    using transfer_format_validation [of abc_state ?long "signed_by addrA" "[7]"] ex A fmt ok
    by simp
qed

section \<open>CheckTx against DeliverTx\<close>

lemma IncrementNextNonce_fields [simp]:
  "acc_balance (IncrementNextNonce s i) = acc_balance s"
  "acc_addr (IncrementNextNonce s i) = acc_addr s"
  "addr_id (IncrementNextNonce s i) = addr_id s"
  "addr_unclaimed (IncrementNextNonce s i) = addr_unclaimed s"
  "tx_status (IncrementNextNonce s i) = tx_status s"
  by (simp_all add: IncrementNextNonce_def)

lemma resolve_IncrementNextNonce [simp]:
  "IdentifierToLikeChainID (IncrementNextNonce s i) x = IdentifierToLikeChainID s x"
  by (cases x) (simp_all add: IsLikeChainIDRegistered_def)

lemma balanceKey_IncrementNextNonce [simp]:
  "balanceKey (IncrementNextNonce s i) x = balanceKey s x"
  by (cases x) simp_all

lemma readBalance_IncrementNextNonce [simp]:
  "readBalance (IncrementNextNonce s i) k = readBalance s k"
  by (cases "(s, k)" rule: readBalance.cases) simp_all

lemma FetchBalance_IncrementNextNonce [simp]:
  "FetchBalance (IncrementNextNonce s i) x = FetchBalance s x"
  by (simp add: FetchBalance_def)

lemma deliver_loop_state_cong:
  "(\<And>x. IdentifierToLikeChainID s' x = IdentifierToLikeChainID s x) \<Longrightarrow>
   deliver_loop s' b n ts tot tr = deliver_loop s b n ts tot tr"
  by (induction ts arbitrary: n tot tr) (simp_all add: Let_def)

lemma deliver_loop_IncrementNextNonce [simp]:
  "deliver_loop (IncrementNextNonce s i) b n ts tot tr = deliver_loop s b n ts tot tr"
  by (rule deliver_loop_state_cong) simp

lemma check_deliver_loop:
  "map_option kind (checkTransfer_loop s b ts tot) =
     (case deliver_loop s b n ts tot tr of Inl r \<Rightarrow> Some (kind r) | Inr p \<Rightarrow> None)"
  by (induction ts arbitrary: n tot tr) (simp_all add: Let_def)

lemma kind_None_iff: "kind r = None \<longleftrightarrow> r = Success"
  by (cases r) simp_all

text \<open>What \<^verbatim>\<open>deliver\<close> does once format, sender, signature and nonce have passed.\<close>

lemma deliver_past_nonce:
  assumes "validateTransferTransactionFormat state tx"
    and "IdentifierToLikeChainID state (From tx) = Some senderID"
    and "validateTransferSignature recover state tx"
    and "Nonce tx = FetchNextNonce state senderID"
  shows "deliver recover state tx txHash =
     (case deliver_loop state (FetchBalance state (IdLikeChainID senderID)) 0 (ToList tx)
             (int (Fee tx)) [] of
        Inl r \<Rightarrow> (r, IncrementNextNonce state senderID)
      | Inr (total0, transfers) \<Rightarrow>
          (Success, MinusBalance (credit_all (IncrementNextNonce state senderID) transfers)
                      (IdLikeChainID senderID) total0))"
  using assms by (simp add: deliver_def Let_def)

lemma checkTransfer_past_nonce:
  assumes "validateTransferTransactionFormat state tx"
    and "IdentifierToLikeChainID state (From tx) = Some senderID"
    and "validateTransferSignature recover state tx"
    and "Nonce tx = FetchNextNonce state senderID"
  shows "checkTransfer recover state tx =
     (case checkTransfer_loop state (FetchBalance state (IdLikeChainID senderID)) (ToList tx)
             (int (Fee tx)) of
        Some r \<Rightarrow> r | None \<Rightarrow> Success)"
  using assms by (simp add: checkTransfer_def Let_def)

lemma check_deliver_kind:
  "kind (checkTransfer recover state tx) = kind (fst (deliver recover state tx txHash))"
proof -
  have loop: "kind (case checkTransfer_loop state b (ToList tx) (int (Fee tx)) of
                      Some r \<Rightarrow> r | None \<Rightarrow> Success)
     = kind (fst (case deliver_loop state b 0 (ToList tx) (int (Fee tx)) [] of
                    Inl r \<Rightarrow> (r, s1)
                  | Inr (total0, transfers) \<Rightarrow> (Success, f total0 transfers)))"
    for b and s1 :: State and f :: "int \<Rightarrow> Transfers \<Rightarrow> State"
    using check_deliver_loop [of state b "ToList tx" "int (Fee tx)" 0 "[]"]
    by (auto split: option.splits sum.splits)
  show ?thesis
    unfolding checkTransfer_def deliver_def
    by (simp add: Let_def loop split: option.splits)
qed

text \<open>
  C9. On one and the same state, \<^verbatim>\<open>checkTransfer\<close> returns Success exactly when
  \<^verbatim>\<open>deliver\<close> does, and otherwise both return an error of the same kind.
\<close>

theorem check_deliver_agree:
  "(checkTransfer recover state tx = Success
      \<longleftrightarrow> fst (deliver recover state tx txHash) = Success)
   \<and> kind (checkTransfer recover state tx) = kind (fst (deliver recover state tx txHash))
   \<and> kind (checkTransfer recover state tx)
       = kind (fst (deliverTransfer recover state tx txHash))"
  using check_deliver_kind [of recover state tx txHash]
        kind_None_iff [of "checkTransfer recover state tx"]
        kind_None_iff [of "fst (deliver recover state tx txHash)"]
  by (simp add: deliverTransfer_result)

section \<open>The loop over the outputs\<close>

lemma bad_receiver_iff:
  "(GetLikeChainID x \<noteq> None \<and> IdentifierToLikeChainID state x = None)
     \<longleftrightarrow> receiver_without_account state x"
  by (cases x) simp_all

lemma values_sum_simps [simp]:
  "values_sum [] = 0" "values_sum (t # ts) = int (Value t) + values_sum ts"
  by (simp_all add: values_sum_def)

lemma values_sum_nonneg: "0 \<le> values_sum ts"
  by (induction ts) simp_all

lemma deliver_loop_Cons_bad:
  "receiver_without_account s (To t) \<Longrightarrow>
   deliver_loop s b n (t # rest) tot tr = Inl TransferDeliverTxInvalidReceiver"
  by (cases "To t") auto

lemma deliver_loop_Cons_short:
  "\<not> receiver_without_account s (To t) \<Longrightarrow> b < tot + int (Value t) \<Longrightarrow>
   deliver_loop s b n (t # rest) tot tr = Inl TransferDeliverTxNotEnoughBalance"
  by (cases "To t") (auto simp: Let_def)

lemma deliver_loop_Cons_next:
  "\<not> receiver_without_account s (To t) \<Longrightarrow> \<not> b < tot + int (Value t) \<Longrightarrow>
   deliver_loop s b n (t # rest) tot tr =
     deliver_loop s b (Suc n) rest (tot + int (Value t))
       (AList.update (fst (targetIden s n t)) (snd (targetIden s n t), int (Value t)) tr)"
  by (cases "To t") (auto simp: Let_def targetIden_def split: option.splits)

declare deliver_loop.simps(2) [simp del]

lemma deliver_loop_NotEnoughBalance_iff:
  "deliver_loop s b n ts tot tr = Inl TransferDeliverTxNotEnoughBalance \<longleftrightarrow>
     (\<exists>k. 1 \<le> k \<and> k \<le> length ts \<and> b < tot + values_sum (take k ts)
          \<and> (\<forall>t \<in> set (take k ts). \<not> receiver_without_account s (To t)))"
proof (induction ts arbitrary: n tot tr)
  case Nil
  show ?case by simp
next
  case (Cons t rest)
  show ?case
  proof (cases "receiver_without_account s (To t)")
    case True
    have "\<not> (\<exists>k. 1 \<le> k \<and> k \<le> length (t # rest) \<and> b < tot + values_sum (take k (t # rest))
          \<and> (\<forall>u \<in> set (take k (t # rest)). \<not> receiver_without_account s (To u)))"
    proof
      assume "\<exists>k. 1 \<le> k \<and> k \<le> length (t # rest) \<and> b < tot + values_sum (take k (t # rest))
          \<and> (\<forall>u \<in> set (take k (t # rest)). \<not> receiver_without_account s (To u))"
      then obtain k where k: "1 \<le> k"
        "\<forall>u \<in> set (take k (t # rest)). \<not> receiver_without_account s (To u)" by blast
      then obtain k' where "k = Suc k'" by (cases k) auto
      with k True show False by simp
    qed
    moreover have "deliver_loop s b n (t # rest) tot tr = Inl TransferDeliverTxInvalidReceiver"
      using True by (rule deliver_loop_Cons_bad)
    ultimately show ?thesis by simp
  next
    case good: False
    show ?thesis
    proof (cases "b < tot + int (Value t)")
      case True
      then have "deliver_loop s b n (t # rest) tot tr = Inl TransferDeliverTxNotEnoughBalance"
        using good by (simp only: deliver_loop_Cons_short [OF good True])
      moreover have "1 \<le> (1::nat) \<and> 1 \<le> length (t # rest) \<and> b < tot + values_sum (take 1 (t # rest))
          \<and> (\<forall>u \<in> set (take 1 (t # rest)). \<not> receiver_without_account s (To u))"
        using True good by simp
      ultimately show ?thesis by blast
    next
      case False
      note step = deliver_loop_Cons_next [OF good False, of n rest tr]
      have "(\<exists>k. 1 \<le> k \<and> k \<le> length rest \<and> b < (tot + int (Value t)) + values_sum (take k rest)
               \<and> (\<forall>u \<in> set (take k rest). \<not> receiver_without_account s (To u)))
         \<longleftrightarrow> (\<exists>k. 1 \<le> k \<and> k \<le> length (t # rest) \<and> b < tot + values_sum (take k (t # rest))
               \<and> (\<forall>u \<in> set (take k (t # rest)). \<not> receiver_without_account s (To u)))"
        (is "?L \<longleftrightarrow> ?R")
      proof
        assume ?L
        then obtain k where "1 \<le> k" "k \<le> length rest"
          "b < (tot + int (Value t)) + values_sum (take k rest)"
          "\<forall>u \<in> set (take k rest). \<not> receiver_without_account s (To u)" by blast
        then have "1 \<le> Suc k \<and> Suc k \<le> length (t # rest)
            \<and> b < tot + values_sum (take (Suc k) (t # rest))
            \<and> (\<forall>u \<in> set (take (Suc k) (t # rest)). \<not> receiver_without_account s (To u))"
          using good by (simp add: add.assoc)
        then show ?R by blast
      next
        assume ?R
        then obtain k where k: "1 \<le> k" "k \<le> length (t # rest)"
          "b < tot + values_sum (take k (t # rest))"
          "\<forall>u \<in> set (take k (t # rest)). \<not> receiver_without_account s (To u)" by blast
        then obtain k' where k': "k = Suc k'" by (cases k) auto
        have "k' \<noteq> 0"
        proof
          assume "k' = 0"
          with k k' have "b < tot + int (Value t)" by simp
          with False show False by simp
        qed
        then have "1 \<le> k' \<and> k' \<le> length rest
            \<and> b < (tot + int (Value t)) + values_sum (take k' rest)
            \<and> (\<forall>u \<in> set (take k' rest). \<not> receiver_without_account s (To u))"
          using k k' by (simp add: add.assoc)
        then show ?L by blast
      qed
      then show ?thesis unfolding step using Cons.IH by simp
    qed
  qed
qed


lemma deliver_loop_Inr_iff:
  "(\<exists>p. deliver_loop s b n ts tot tr = Inr p) \<longleftrightarrow>
     (\<forall>t \<in> set ts. \<not> receiver_without_account s (To t))
     \<and> (\<forall>k. 1 \<le> k \<and> k \<le> length ts \<longrightarrow> tot + values_sum (take k ts) \<le> b)"
proof (induction ts arbitrary: n tot tr)
  case Nil
  show ?case by simp
next
  case (Cons t rest)
  show ?case
  proof (cases "receiver_without_account s (To t)")
    case True
    then show ?thesis by (simp add: deliver_loop_Cons_bad)
  next
    case good: False
    show ?thesis
    proof (cases "b < tot + int (Value t)")
      case True
      have "\<not> (\<forall>k. 1 \<le> k \<and> k \<le> length (t # rest)
                  \<longrightarrow> tot + values_sum (take k (t # rest)) \<le> b)"
      proof
        assume "\<forall>k. 1 \<le> k \<and> k \<le> length (t # rest)
                  \<longrightarrow> tot + values_sum (take k (t # rest)) \<le> b"
        then have "1 \<le> (1::nat) \<and> 1 \<le> length (t # rest)
                  \<longrightarrow> tot + values_sum (take 1 (t # rest)) \<le> b" by (rule spec)
        with True show False by simp
      qed
      then show ?thesis by (simp only: deliver_loop_Cons_short [OF good True]) simp
    next
      case False
      note step = deliver_loop_Cons_next [OF good False, of n rest tr]
      have "(\<forall>k. 1 \<le> k \<and> k \<le> length rest
               \<longrightarrow> (tot + int (Value t)) + values_sum (take k rest) \<le> b)
         \<longleftrightarrow> (\<forall>k. 1 \<le> k \<and> k \<le> length (t # rest)
               \<longrightarrow> tot + values_sum (take k (t # rest)) \<le> b)" (is "?L \<longleftrightarrow> ?R")
      proof
        assume L: ?L
        show ?R
        proof (intro allI impI)
          fix k assume k: "1 \<le> k \<and> k \<le> length (t # rest)"
          then obtain k' where k': "k = Suc k'" by (cases k) auto
          show "tot + values_sum (take k (t # rest)) \<le> b"
          proof (cases "k' = 0")
            case True
            with False k' show ?thesis by simp
          next
            case nz: False
            with k k' L have "(tot + int (Value t)) + values_sum (take k' rest) \<le> b" by simp
            with k' show ?thesis by (simp add: add.assoc)
          qed
        qed
      next
        assume R: ?R
        show ?L
        proof (intro allI impI)
          fix k assume k: "1 \<le> k \<and> k \<le> length rest"
          from R have "1 \<le> Suc k \<and> Suc k \<le> length (t # rest)
                  \<longrightarrow> tot + values_sum (take (Suc k) (t # rest)) \<le> b" by (rule spec)
          with k have "tot + values_sum (take (Suc k) (t # rest)) \<le> b" by simp
          then show "(tot + int (Value t)) + values_sum (take k rest) \<le> b"
            by (simp add: add.assoc)
        qed
      qed
      then show ?thesis unfolding step using Cons.IH good by simp
    qed
  qed
qed

lemma deliver_loop_result:
  "deliver_loop s b n ts tot tr = Inl r \<Longrightarrow>
   r = TransferDeliverTxInvalidReceiver \<or> r = TransferDeliverTxNotEnoughBalance"
  by (induction ts arbitrary: n tot tr)
     (auto simp: deliver_loop.simps(2) Let_def split: if_splits)

lemma deliver_loop_InvalidReceiver:
  "deliver_loop s b n ts tot tr = Inl TransferDeliverTxInvalidReceiver \<Longrightarrow>
   \<exists>t \<in> set ts. receiver_without_account s (To t)"
proof (induction ts arbitrary: n tot tr)
  case Nil
  then show ?case by simp
next
  case (Cons t rest)
  show ?case
  proof (cases "receiver_without_account s (To t)")
    case True
    then show ?thesis by simp
  next
    case good: False
    show ?thesis
    proof (cases "b < tot + int (Value t)")
      case True
      with Cons.prems show ?thesis by (simp only: deliver_loop_Cons_short [OF good True]) simp
    next
      case False
      from Cons.prems have "deliver_loop s b (Suc n) rest (tot + int (Value t))
         (AList.update (fst (targetIden s n t)) (snd (targetIden s n t), int (Value t)) tr)
           = Inl TransferDeliverTxInvalidReceiver"
        by (simp only: deliver_loop_Cons_next [OF good False])
      from Cons.IH [OF this] show ?thesis by simp
    qed
  qed
qed

section \<open>Balances under credit and debit\<close>

lemma writeBalance_fields [simp]:
  "acc_nextNonce (writeBalance s k b) = acc_nextNonce s"
  "acc_addr (writeBalance s k b) = acc_addr s"
  "addr_id (writeBalance s k b) = addr_id s"
  "tx_status (writeBalance s k b) = tx_status s"
  by (cases "(s, k, b)" rule: writeBalance.cases; simp)+

lemma balanceKey_writeBalance [simp]:
  "balanceKey (writeBalance s k b) x = balanceKey s x"
  by (cases x) simp_all

lemma resolve_writeBalance [simp]:
  "IdentifierToLikeChainID (writeBalance s k b) x = IdentifierToLikeChainID s x"
  by (cases x) (simp_all add: IsLikeChainIDRegistered_def)

lemma readBalance_writeBalance:
  "readBalance (writeBalance s k b) (Some k') =
     (if k = Some k' then b else readBalance s (Some k'))"
  by (cases "(s, k, b)" rule: writeBalance.cases; cases k'; simp)

lemma AddBalance_fields [simp]:
  "acc_nextNonce (AddBalance s x a) = acc_nextNonce s"
  "acc_addr (AddBalance s x a) = acc_addr s"
  "addr_id (AddBalance s x a) = addr_id s"
  "tx_status (AddBalance s x a) = tx_status s"
  by (simp_all add: AddBalance_def)

lemma MinusBalance_fields [simp]:
  "acc_nextNonce (MinusBalance s x a) = acc_nextNonce s"
  "acc_addr (MinusBalance s x a) = acc_addr s"
  "addr_id (MinusBalance s x a) = addr_id s"
  "tx_status (MinusBalance s x a) = tx_status s"
  by (simp_all add: MinusBalance_def)

lemma balanceKey_AddBalance [simp]:
  "balanceKey (AddBalance s x a) y = balanceKey s y"
  by (simp add: AddBalance_def)

lemma readBalance_AddBalance:
  "readBalance (AddBalance s x a) (Some k) =
     readBalance s (Some k) + (if balanceKey s x = Some k then a else 0)"
  by (simp add: AddBalance_def FetchBalance_def readBalance_writeBalance)

lemma readBalance_MinusBalance:
  "readBalance (MinusBalance s x a) (Some k) =
     readBalance s (Some k) - (if balanceKey s x = Some k then a else 0)"
  by (simp add: MinusBalance_def FetchBalance_def readBalance_writeBalance)

lemma credit_all_fields [simp]:
  "acc_nextNonce (credit_all s es) = acc_nextNonce s"
  "acc_addr (credit_all s es) = acc_addr s"
  "addr_id (credit_all s es) = addr_id s"
  "tx_status (credit_all s es) = tx_status s"
  by (induction s es rule: credit_all.induct; simp)+

lemma balanceKey_credit_all [simp]:
  "balanceKey (credit_all s es) y = balanceKey s y"
  by (induction s es rule: credit_all.induct) simp_all

lemma readBalance_credit_all:
  "readBalance (credit_all s es) (Some k) =
     readBalance s (Some k)
       + sum_list (map (\<lambda>e. if balanceKey s (fst (snd e)) = Some k then snd (snd e) else 0) es)"
  by (induction s es rule: credit_all.induct) (simp_all add: readBalance_AddBalance)

lemma FetchNextNonce_IncrementNextNonce:
  "FetchNextNonce (IncrementNextNonce s i) j =
     (if j = i then FetchNextNonce s i + 1 else FetchNextNonce s j)"
  by (simp add: FetchNextNonce_def IncrementNextNonce_def)

lemma deliver_tx_status [simp]:
  "tx_status (snd (deliver recover state tx txHash)) = tx_status state"
  by (simp add: deliver_def Let_def split: option.splits sum.splits prod.splits)

lemma GetStatus_deliverTransfer:
  "GetStatus (snd (deliverTransfer recover state tx txHash)) h =
     (if h = txHash \<and> GetStatus state txHash = TxStatusNotSet
      then (if fst (deliver recover state tx txHash) = Success
            then TxStatusSuccess else TxStatusFail)
      else GetStatus state h)"
  using deliver_tx_status [of recover state tx txHash]
  by (cases "deliver recover state tx txHash")
     (simp add: deliverTransfer_def Let_def GetStatus_def SetStatus_def Code_nonzero_def)

section \<open>The balance step\<close>

lemma prefix_total_mono:
  "j \<le> k \<Longrightarrow> prefix_total fee ts j \<le> prefix_total fee ts k"
proof (induction ts arbitrary: j k)
  case Nil
  then show ?case by (simp add: prefix_total_def)
next
  case (Cons t rest)
  show ?case
  proof (cases j)
    case 0
    then show ?thesis using values_sum_nonneg [of "take k (t # rest)"] by (simp add: prefix_total_def)
  next
    case (Suc j')
    with Cons.prems obtain k' where k': "k = Suc k'" "j' \<le> k'" by (cases k) auto
    from Cons.IH [OF k'(2)] show ?thesis using Suc k' by (simp add: prefix_total_def)
  qed
qed

lemma every_prefix_iff:
  assumes "ts \<noteq> []"
  shows "(\<forall>k. 1 \<le> k \<and> k \<le> length ts \<longrightarrow> int fee + values_sum (take k ts) \<le> b)
     \<longleftrightarrow> (\<forall>k \<le> length ts. prefix_total fee ts k \<le> b)" (is "?L \<longleftrightarrow> ?R")
proof
  assume L: ?L
  show ?R
  proof (intro allI impI)
    fix k assume k: "k \<le> length ts"
    show "prefix_total fee ts k \<le> b"
    proof (cases "k = 0")
      case True
      from assms have "1 \<le> (1::nat) \<and> 1 \<le> length ts" by (cases ts) auto
      with L have "prefix_total fee ts 1 \<le> b" unfolding prefix_total_def by blast
      moreover have "prefix_total fee ts 0 \<le> prefix_total fee ts 1"
        by (rule prefix_total_mono) simp
      ultimately show ?thesis using True by simp
    next
      case False
      with k L show ?thesis unfolding prefix_total_def by simp
    qed
  qed
next
  assume ?R then show ?L unfolding prefix_total_def by simp
qed

text \<open>The outcome of the balance step, for a transaction that has passed the first four.\<close>

lemma deliver_NotEnoughBalance_iff:
  assumes "validateTransferTransactionFormat state tx"
    and "IdentifierToLikeChainID state (From tx) = Some senderID"
    and "validateTransferSignature recover state tx"
    and "Nonce tx = FetchNextNonce state senderID"
  shows "fst (deliver recover state tx txHash) = TransferDeliverTxNotEnoughBalance \<longleftrightarrow>
     (\<exists>k. 1 \<le> k \<and> k \<le> length (ToList tx)
          \<and> FetchBalance state (IdLikeChainID senderID) < prefix_total (Fee tx) (ToList tx) k
          \<and> (\<forall>t \<in> set (take k (ToList tx)). \<not> receiver_without_account state (To t)))"
  unfolding deliver_past_nonce [OF assms] prefix_total_def
  using deliver_loop_NotEnoughBalance_iff [of state "FetchBalance state (IdLikeChainID senderID)" 0
          "ToList tx" "int (Fee tx)" "[]"]
  by (auto split: sum.splits)

lemma deliver_Success_iff:
  assumes "validateTransferTransactionFormat state tx"
    and "IdentifierToLikeChainID state (From tx) = Some senderID"
    and "validateTransferSignature recover state tx"
    and "Nonce tx = FetchNextNonce state senderID"
  shows "fst (deliver recover state tx txHash) = Success \<longleftrightarrow>
     (\<forall>t \<in> set (ToList tx). \<not> receiver_without_account state (To t))
     \<and> (\<forall>k \<le> length (ToList tx).
           prefix_total (Fee tx) (ToList tx) k \<le> FetchBalance state (IdLikeChainID senderID))"
proof -
  have ne: "ToList tx \<noteq> []" using assms(1) by (simp add: format_iff)
  have "fst (deliver recover state tx txHash) = Success \<longleftrightarrow>
     (\<exists>p. deliver_loop state (FetchBalance state (IdLikeChainID senderID)) 0 (ToList tx)
             (int (Fee tx)) [] = Inr p)"
    unfolding deliver_past_nonce [OF assms]
    using deliver_loop_result [of state "FetchBalance state (IdLikeChainID senderID)" 0
          "ToList tx" "int (Fee tx)" "[]"]
    by (auto split: sum.splits)
  then show ?thesis
    unfolding deliver_loop_Inr_iff every_prefix_iff [OF ne] by simp
qed

lemma deliver_InvalidReceiver:
  assumes "validateTransferTransactionFormat state tx"
    and "IdentifierToLikeChainID state (From tx) = Some senderID"
    and "validateTransferSignature recover state tx"
    and "Nonce tx = FetchNextNonce state senderID"
    and "fst (deliver recover state tx txHash) = TransferDeliverTxInvalidReceiver"
  shows "\<exists>t \<in> set (ToList tx). receiver_without_account state (To t)"
proof -
  have "deliver_loop state (FetchBalance state (IdLikeChainID senderID)) 0 (ToList tx)
             (int (Fee tx)) [] = Inl TransferDeliverTxInvalidReceiver"
    using assms(5) unfolding deliver_past_nonce [OF assms(1-4)]
    by (auto split: sum.splits)
  then show ?thesis by (rule deliver_loop_InvalidReceiver)
qed

lemma deliver_step5_result:
  assumes "validateTransferTransactionFormat state tx"
    and "IdentifierToLikeChainID state (From tx) = Some senderID"
    and "validateTransferSignature recover state tx"
    and "Nonce tx = FetchNextNonce state senderID"
  shows "fst (deliver recover state tx txHash) \<in>
           {Success, TransferDeliverTxNotEnoughBalance, TransferDeliverTxInvalidReceiver}"
  unfolding deliver_past_nonce [OF assms]
  using deliver_loop_result [of state "FetchBalance state (IdLikeChainID senderID)" 0
          "ToList tx" "int (Fee tx)" "[]"]
  by (auto split: sum.splits)

section \<open>Outcome of the balance step\<close>

lemma balanceKey_SetStatus [simp]: "balanceKey (SetStatus s h st) x = balanceKey s x"
  by (cases x) simp_all

lemma readBalance_SetStatus [simp]: "readBalance (SetStatus s h st) k = readBalance s k"
  by (cases "(s, k)" rule: readBalance.cases) simp_all

lemma FetchBalance_SetStatus [simp]: "FetchBalance (SetStatus s h st) x = FetchBalance s x"
  by (simp add: FetchBalance_def)

lemma FetchNextNonce_SetStatus [simp]: "FetchNextNonce (SetStatus s h st) i = FetchNextNonce s i"
  by (simp add: FetchNextNonce_def)

lemma resolve_SetStatus [simp]:
  "IdentifierToLikeChainID (SetStatus s h st) x = IdentifierToLikeChainID s x"
  by (cases x) (simp_all add: IsLikeChainIDRegistered_def)

lemma deliverTransfer_state:
  "snd (deliverTransfer recover state tx txHash) = snd (deliver recover state tx txHash)
   \<or> (\<exists>st. snd (deliverTransfer recover state tx txHash)
              = SetStatus (snd (deliver recover state tx txHash)) txHash st)"
  by (cases "deliver recover state tx txHash") (auto simp: deliverTransfer_def Let_def)

lemma FetchBalance_deliverTransfer:
  "FetchBalance (snd (deliverTransfer recover state tx txHash)) x
     = FetchBalance (snd (deliver recover state tx txHash)) x"
  using deliverTransfer_state [of recover state tx txHash] by auto

lemma FetchNextNonce_deliverTransfer:
  "FetchNextNonce (snd (deliverTransfer recover state tx txHash)) i
     = FetchNextNonce (snd (deliver recover state tx txHash)) i"
  using deliverTransfer_state [of recover state tx txHash] by auto

lemma kind_deliver_NotEnoughBalance:
  assumes "validateTransferTransactionFormat state tx"
    and "IdentifierToLikeChainID state (From tx) = Some senderID"
    and "validateTransferSignature recover state tx"
    and "Nonce tx = FetchNextNonce state senderID"
  shows "kind (fst (deliver recover state tx txHash)) = Some NotEnoughBalance
     \<longleftrightarrow> fst (deliver recover state tx txHash) = TransferDeliverTxNotEnoughBalance"
  using deliver_step5_result [OF assms, of txHash] by auto

text \<open>
  C5 (as amended). For a Transfer that has passed format, sender, signature and nonce,
  the balance step fails with NotEnoughBalance exactly when there is a non-empty prefix
  of the ordered outputs at which fee plus the accumulated values exceeds the sender's
  balance and in which no receiver is an internal ID without an account; it passes
  exactly when no receiver is an internal ID without an account and the running sum is
  at most the balance at every prefix. CheckTx and DeliverTx agree.
\<close>

theorem balance_step_outcome:
  assumes "validateTransferTransactionFormat state tx"
    and "IdentifierToLikeChainID state (From tx) = Some senderID"
    and "validateTransferSignature recover state tx"
    and "Nonce tx = FetchNextNonce state senderID"
  shows "(kind (checkTransfer recover state tx) = Some NotEnoughBalance \<longleftrightarrow>
            (\<exists>k. 1 \<le> k \<and> k \<le> length (ToList tx)
               \<and> FetchBalance state (IdLikeChainID senderID) < prefix_total (Fee tx) (ToList tx) k
               \<and> (\<forall>t \<in> set (take k (ToList tx)). \<not> receiver_without_account state (To t))))
       \<and> (kind (fst (deliver recover state tx txHash)) = Some NotEnoughBalance \<longleftrightarrow>
            (\<exists>k. 1 \<le> k \<and> k \<le> length (ToList tx)
               \<and> FetchBalance state (IdLikeChainID senderID) < prefix_total (Fee tx) (ToList tx) k
               \<and> (\<forall>t \<in> set (take k (ToList tx)). \<not> receiver_without_account state (To t))))
       \<and> (checkTransfer recover state tx = Success \<longleftrightarrow>
            (\<forall>t \<in> set (ToList tx). \<not> receiver_without_account state (To t))
            \<and> (\<forall>k \<le> length (ToList tx).
                  prefix_total (Fee tx) (ToList tx) k \<le> FetchBalance state (IdLikeChainID senderID)))
       \<and> (fst (deliver recover state tx txHash) = Success \<longleftrightarrow>
            (\<forall>t \<in> set (ToList tx). \<not> receiver_without_account state (To t))
            \<and> (\<forall>k \<le> length (ToList tx).
                  prefix_total (Fee tx) (ToList tx) k \<le> FetchBalance state (IdLikeChainID senderID)))"
proof -
  note k = check_deliver_kind [of recover state tx txHash]
  have s: "checkTransfer recover state tx = Success
             \<longleftrightarrow> fst (deliver recover state tx txHash) = Success"
    using k kind_None_iff [of "checkTransfer recover state tx"]
          kind_None_iff [of "fst (deliver recover state tx txHash)"] by simp
  show ?thesis
    unfolding s k kind_deliver_NotEnoughBalance [OF assms]
    using deliver_NotEnoughBalance_iff [OF assms, of txHash] deliver_Success_iff [OF assms, of txHash]
    by simp
qed

lemmas eval_defs = abc_defs handler_defs idZ_def deliver_loop.simps(2) prefix_total_def

theorem balance_step_outcome_witness:
  "validateTransferTransactionFormat abc_state
     (transfer_from_A [TransferOutput 0 (IdLikeChainID idB) 50 [],
                       TransferOutput 1 (IdLikeChainID idC) 51 []] 1)
   \<and> IdentifierToLikeChainID abc_state (IdLikeChainID idA) = Some idA
   \<and> validateTransferSignature (signed_by addrA) abc_state
     (transfer_from_A [TransferOutput 0 (IdLikeChainID idB) 50 [],
                       TransferOutput 1 (IdLikeChainID idC) 51 []] 1)
   \<and> FetchNextNonce abc_state idA = 1
   \<and> kind (checkTransfer (signed_by addrA) abc_state
     (transfer_from_A [TransferOutput 0 (IdLikeChainID idB) 50 [],
                       TransferOutput 1 (IdLikeChainID idC) 51 []] 1)) = Some NotEnoughBalance
   \<and> (\<exists>k. 1 \<le> k \<and> k \<le> 2
        \<and> FetchBalance abc_state (IdLikeChainID idA)
            < prefix_total 0 [TransferOutput 0 (IdLikeChainID idB) 50 [],
                              TransferOutput 1 (IdLikeChainID idC) 51 []] k)"
proof -
  let ?tx = "transfer_from_A [TransferOutput 0 (IdLikeChainID idB) 50 [],
                       TransferOutput 1 (IdLikeChainID idC) 51 []] 1"
  have h1: "validateTransferTransactionFormat abc_state ?tx" by (simp add: eval_defs)
  have h2: "IdentifierToLikeChainID abc_state (From ?tx) = Some idA" by (simp add: eval_defs)
  have h3: "validateTransferSignature (signed_by addrA) abc_state ?tx" by (simp add: eval_defs)
  have h4: "Nonce ?tx = FetchNextNonce abc_state idA" by (simp add: eval_defs)
  have r: "kind (checkTransfer (signed_by addrA) abc_state ?tx) = Some NotEnoughBalance"
    by (simp add: eval_defs)
  have f: "From ?tx = IdLikeChainID idA" "ToList ?tx = [TransferOutput 0 (IdLikeChainID idB) 50 [],
                       TransferOutput 1 (IdLikeChainID idC) 51 []]" "Fee ?tx = 0" "Nonce ?tx = 1"
    by (simp_all add: transfer_from_A_def)
  from balance_step_outcome [OF h1 h2 h3 h4, of "[7]"] r
  have "\<exists>k. 1 \<le> k \<and> k \<le> length (ToList ?tx)
               \<and> FetchBalance abc_state (IdLikeChainID idA) < prefix_total (Fee ?tx) (ToList ?tx) k
               \<and> (\<forall>t \<in> set (take k (ToList ?tx)). \<not> receiver_without_account abc_state (To t))"
    by blast
  then have "\<exists>k. 1 \<le> k \<and> k \<le> 2
        \<and> FetchBalance abc_state (IdLikeChainID idA)
            < prefix_total 0 [TransferOutput 0 (IdLikeChainID idB) 50 [],
                              TransferOutput 1 (IdLikeChainID idC) 51 []] k"
    unfolding f by auto
  with h1 h2 h3 h4 r show ?thesis unfolding f by simp
qed

text \<open>
  Counterexample to C5 in its unrestricted form. A has balance 100. With outputs to an ID
  without account (value 1) and to B (value 1000), the prefix of both outputs overdraws,
  yet the step ends with InvalidReceiver, not NotEnoughBalance. With the single output to
  the ID without account, every prefix is within the balance, yet the step does not pass.
\<close>

theorem balance_step_counterexample:
  "validateTransferTransactionFormat abc_state
     (transfer_from_A [TransferOutput 0 (IdLikeChainID idZ) 1 [],
                       TransferOutput 1 (IdLikeChainID idB) 1000 []] 1)
   \<and> IdentifierToLikeChainID abc_state (IdLikeChainID idA) = Some idA
   \<and> validateTransferSignature (signed_by addrA) abc_state
     (transfer_from_A [TransferOutput 0 (IdLikeChainID idZ) 1 [],
                       TransferOutput 1 (IdLikeChainID idB) 1000 []] 1)
   \<and> FetchNextNonce abc_state idA = 1
   \<and> FetchBalance abc_state (IdLikeChainID idA)
        < prefix_total 0 [TransferOutput 0 (IdLikeChainID idZ) 1 [],
                          TransferOutput 1 (IdLikeChainID idB) 1000 []] 2
   \<and> checkTransfer (signed_by addrA) abc_state
        (transfer_from_A [TransferOutput 0 (IdLikeChainID idZ) 1 [],
                          TransferOutput 1 (IdLikeChainID idB) 1000 []] 1)
       = TransferCheckTxInvalidReceiver
   \<and> fst (deliver (signed_by addrA) abc_state
        (transfer_from_A [TransferOutput 0 (IdLikeChainID idZ) 1 [],
                          TransferOutput 1 (IdLikeChainID idB) 1000 []] 1) [7])
       = TransferDeliverTxInvalidReceiver
   \<and> prefix_total 0 [TransferOutput 0 (IdLikeChainID idZ) 1 []] 0
        \<le> FetchBalance abc_state (IdLikeChainID idA)
   \<and> prefix_total 0 [TransferOutput 0 (IdLikeChainID idZ) 1 []] 1
        \<le> FetchBalance abc_state (IdLikeChainID idA)
   \<and> checkTransfer (signed_by addrA) abc_state
        (transfer_from_A [TransferOutput 0 (IdLikeChainID idZ) 1 []] 1)
       = TransferCheckTxInvalidReceiver
   \<and> fst (deliver (signed_by addrA) abc_state
        (transfer_from_A [TransferOutput 0 (IdLikeChainID idZ) 1 []] 1) [7])
       = TransferDeliverTxInvalidReceiver"
  by (simp add: eval_defs)

section \<open>Insufficient balance\<close>

lemma deliver_NotEnoughBalance_state:
  assumes "validateTransferTransactionFormat state tx"
    and "IdentifierToLikeChainID state (From tx) = Some senderID"
    and "validateTransferSignature recover state tx"
    and "Nonce tx = FetchNextNonce state senderID"
    and "fst (deliver recover state tx txHash) \<noteq> Success"
  shows "snd (deliver recover state tx txHash) = IncrementNextNonce state senderID"
  using assms(5) unfolding deliver_past_nonce [OF assms(1-4)]
  by (auto split: sum.splits)

text \<open>
  C1. A Transfer that passes format, sender, signature and nonce but fails the balance
  step with insufficient balance: DeliverTx returns NotEnoughBalance, every balance (of
  the sender, of every receiver, claimed or unclaimed) is unchanged, the sender's next
  nonce is incremented by 1 and the recorded status is Fail (a status Success already
  recorded under the hash would be kept).
\<close>

theorem insufficient_balance_consumes_nonce:
  assumes "validateTransferTransactionFormat state tx"
    and "IdentifierToLikeChainID state (From tx) = Some senderID"
    and "validateTransferSignature recover state tx"
    and "Nonce tx = FetchNextNonce state senderID"
    and "\<exists>k. 1 \<le> k \<and> k \<le> length (ToList tx)
           \<and> FetchBalance state (IdLikeChainID senderID) < prefix_total (Fee tx) (ToList tx) k
           \<and> (\<forall>t \<in> set (take k (ToList tx)). \<not> receiver_without_account state (To t))"
  shows "fst (deliverTransfer recover state tx txHash) = TransferDeliverTxNotEnoughBalance
     \<and> acc_balance (snd (deliverTransfer recover state tx txHash)) = acc_balance state
     \<and> addr_unclaimed (snd (deliverTransfer recover state tx txHash)) = addr_unclaimed state
     \<and> FetchBalance (snd (deliverTransfer recover state tx txHash)) x = FetchBalance state x
     \<and> FetchNextNonce (snd (deliverTransfer recover state tx txHash)) senderID
         = FetchNextNonce state senderID + 1
     \<and> (GetStatus state txHash \<noteq> TxStatusSuccess \<longrightarrow>
          GetStatus (snd (deliverTransfer recover state tx txHash)) txHash = TxStatusFail)"
proof -
  have r: "fst (deliver recover state tx txHash) = TransferDeliverTxNotEnoughBalance"
    using deliver_NotEnoughBalance_iff [OF assms(1-4), of txHash] assms(5) by simp
  then have "fst (deliver recover state tx txHash) \<noteq> Success" by simp
  from deliver_NotEnoughBalance_state [OF assms(1-4) this]
  have s: "snd (deliver recover state tx txHash) = IncrementNextNonce state senderID" .
  have st: "GetStatus state txHash \<noteq> TxStatusSuccess \<longrightarrow>
          GetStatus (snd (deliverTransfer recover state tx txHash)) txHash = TxStatusFail"
    unfolding GetStatus_deliverTransfer using r by (cases "GetStatus state txHash") simp_all
  show ?thesis
    using r st
    by (simp add: deliverTransfer_result deliverTransfer_fields FetchBalance_deliverTransfer
          FetchNextNonce_deliverTransfer s FetchNextNonce_IncrementNextNonce)
qed

theorem insufficient_balance_consumes_nonce_witness:
  "validateTransferTransactionFormat abc_state
     (transfer_from_A [TransferOutput 0 (IdLikeChainID idB) 50 [],
                       TransferOutput 1 (IdLikeChainID idC) 51 []] 1)
   \<and> IdentifierToLikeChainID abc_state (IdLikeChainID idA) = Some idA
   \<and> validateTransferSignature (signed_by addrA) abc_state
     (transfer_from_A [TransferOutput 0 (IdLikeChainID idB) 50 [],
                       TransferOutput 1 (IdLikeChainID idC) 51 []] 1)
   \<and> FetchNextNonce abc_state idA = 1
   \<and> FetchBalance abc_state (IdLikeChainID idA) = 100
   \<and> prefix_total 0 [TransferOutput 0 (IdLikeChainID idB) 50 [],
                      TransferOutput 1 (IdLikeChainID idC) 51 []] 2 = 101
   \<and> GetStatus abc_state [7] = TxStatusNotSet
   \<and> fst (deliverTransfer (signed_by addrA) abc_state
     (transfer_from_A [TransferOutput 0 (IdLikeChainID idB) 50 [],
                       TransferOutput 1 (IdLikeChainID idC) 51 []] 1) [7])
       = TransferDeliverTxNotEnoughBalance
   \<and> FetchBalance (snd (deliverTransfer (signed_by addrA) abc_state
     (transfer_from_A [TransferOutput 0 (IdLikeChainID idB) 50 [],
                       TransferOutput 1 (IdLikeChainID idC) 51 []] 1) [7])) (IdLikeChainID idA) = 100
   \<and> FetchBalance (snd (deliverTransfer (signed_by addrA) abc_state
     (transfer_from_A [TransferOutput 0 (IdLikeChainID idB) 50 [],
                       TransferOutput 1 (IdLikeChainID idC) 51 []] 1) [7])) (IdLikeChainID idB) = 200
   \<and> FetchBalance (snd (deliverTransfer (signed_by addrA) abc_state
     (transfer_from_A [TransferOutput 0 (IdLikeChainID idB) 50 [],
                       TransferOutput 1 (IdLikeChainID idC) 51 []] 1) [7])) (IdLikeChainID idC) = 300
   \<and> FetchNextNonce (snd (deliverTransfer (signed_by addrA) abc_state
     (transfer_from_A [TransferOutput 0 (IdLikeChainID idB) 50 [],
                       TransferOutput 1 (IdLikeChainID idC) 51 []] 1) [7])) idA = 2
   \<and> GetStatus (snd (deliverTransfer (signed_by addrA) abc_state
     (transfer_from_A [TransferOutput 0 (IdLikeChainID idB) 50 [],
                       TransferOutput 1 (IdLikeChainID idC) 51 []] 1) [7])) [7] = TxStatusFail"
proof -
  let ?outs = "[TransferOutput 0 (IdLikeChainID idB) 50 [],
                TransferOutput 1 (IdLikeChainID idC) 51 []]"
  let ?tx = "transfer_from_A ?outs 1"
  have f: "From ?tx = IdLikeChainID idA" "ToList ?tx = ?outs" "Fee ?tx = 0" "Nonce ?tx = 1"
    by (simp_all add: transfer_from_A_def)
  have h1: "validateTransferTransactionFormat abc_state ?tx" by (simp add: eval_defs)
  have h2: "IdentifierToLikeChainID abc_state (From ?tx) = Some idA" by (simp add: eval_defs)
  have h3: "validateTransferSignature (signed_by addrA) abc_state ?tx" by (simp add: eval_defs)
  have h4: "Nonce ?tx = FetchNextNonce abc_state idA" by (simp add: eval_defs)
  have b: "FetchBalance abc_state (IdLikeChainID idA) = 100"
          "FetchBalance abc_state (IdLikeChainID idB) = 200"
          "FetchBalance abc_state (IdLikeChainID idC) = 300"
          "FetchNextNonce abc_state idA = 1"
          "GetStatus abc_state [7] = TxStatusNotSet"
    by (simp_all add: eval_defs)
  have p: "prefix_total 0 ?outs 2 = 101" by (simp add: eval_defs values_sum_def)
  have "1 \<le> (2::nat) \<and> 2 \<le> length (ToList ?tx)
           \<and> FetchBalance abc_state (IdLikeChainID idA) < prefix_total (Fee ?tx) (ToList ?tx) 2
           \<and> (\<forall>t \<in> set (take 2 (ToList ?tx)). \<not> receiver_without_account abc_state (To t))"
    unfolding f b p by (simp add: eval_defs)
  then have h5: "\<exists>k. 1 \<le> k \<and> k \<le> length (ToList ?tx)
           \<and> FetchBalance abc_state (IdLikeChainID idA) < prefix_total (Fee ?tx) (ToList ?tx) k
           \<and> (\<forall>t \<in> set (take k (ToList ?tx)). \<not> receiver_without_account abc_state (To t))"
    by blast
  note c = insufficient_balance_consumes_nonce [OF h1 h2 h3 h4 h5, of "[7]"]
  show ?thesis
    using h1 h2 h3 b p c [of "IdLikeChainID idA"] c [of "IdLikeChainID idB"] c [of "IdLikeChainID idC"]
    unfolding f by simp
qed

section \<open>A transfer to oneself\<close>

lemma FetchBalance_ID: "FetchBalance s (IdLikeChainID i) = readBalance s (Some (AccBalance i))"
  by (simp add: FetchBalance_def)

lemma resolve_Some_not_without_account:
  "IdentifierToLikeChainID s x = Some i \<Longrightarrow> \<not> receiver_without_account s x"
  by (cases x) (auto split: if_splits)

lemma balanceKey_resolved:
  "IdentifierToLikeChainID s x = Some i \<Longrightarrow> balanceKey s x = Some (AccBalance i)"
  by (cases x) (auto split: if_splits)

text \<open>
  C10. A Transfer from account A with correct nonce and fee 0 whose single output pays
  a value within A's balance to A itself (by its ID or by one of its addresses) succeeds,
  leaves A's balance unchanged and increments A's next nonce by exactly 1.
\<close>

theorem self_transfer_keeps_balance:
  assumes "validateTransferTransactionFormat state tx"
    and "IdentifierToLikeChainID state (From tx) = Some senderID"
    and "validateTransferSignature recover state tx"
    and "Nonce tx = FetchNextNonce state senderID"
    and "Fee tx = 0"
    and "ToList tx = [t]"
    and "IdentifierToLikeChainID state (To t) = Some senderID"
    and "int (Value t) \<le> FetchBalance state (IdLikeChainID senderID)"
  shows "fst (deliverTransfer recover state tx txHash) = Success
     \<and> FetchBalance (snd (deliverTransfer recover state tx txHash)) (IdLikeChainID senderID)
         = FetchBalance state (IdLikeChainID senderID)
     \<and> FetchNextNonce (snd (deliverTransfer recover state tx txHash)) senderID
         = FetchNextNonce state senderID + 1"
proof -
  have good: "\<not> receiver_without_account state (To t)"
    using assms(7) by (rule resolve_Some_not_without_account)
  have enough: "\<not> FetchBalance state (IdLikeChainID senderID) < int (Fee tx) + int (Value t)"
    using assms(5,8) by simp
  have loop: "deliver_loop state (FetchBalance state (IdLikeChainID senderID)) 0 (ToList tx)
                (int (Fee tx)) []
     = Inr (int (Value t), [(Allocated 0, (IdLikeChainID senderID, int (Value t)))])"
    unfolding assms(6) deliver_loop_Cons_next [OF good enough]
    using assms(5,7) by (simp add: targetIden_def)
  have d: "deliver recover state tx txHash =
     (Success, MinusBalance (credit_all (IncrementNextNonce state senderID)
                 [(Allocated 0, (IdLikeChainID senderID, int (Value t)))])
                 (IdLikeChainID senderID) (int (Value t)))"
    unfolding deliver_past_nonce [OF assms(1-4)] loop by simp
  have bal: "FetchBalance (snd (deliver recover state tx txHash)) (IdLikeChainID senderID)
         = FetchBalance state (IdLikeChainID senderID)"
    unfolding d FetchBalance_ID
    by (simp add: readBalance_MinusBalance readBalance_AddBalance del: readBalance.simps)
  have non: "FetchNextNonce (snd (deliver recover state tx txHash)) senderID
         = FetchNextNonce state senderID + 1"
    unfolding d by (simp add: FetchNextNonce_def IncrementNextNonce_def)
  show ?thesis
    unfolding deliverTransfer_result FetchBalance_deliverTransfer FetchNextNonce_deliverTransfer
    using bal non by (simp add: d)
qed

theorem self_transfer_keeps_balance_witness:
  "validateTransferTransactionFormat abc_state
     (transfer_from_A [TransferOutput 0 (IdLikeChainID idA) 1 []] 1)
   \<and> IdentifierToLikeChainID abc_state (IdLikeChainID idA) = Some idA
   \<and> validateTransferSignature (signed_by addrA) abc_state
     (transfer_from_A [TransferOutput 0 (IdLikeChainID idA) 1 []] 1)
   \<and> FetchNextNonce abc_state idA = 1
   \<and> FetchBalance abc_state (IdLikeChainID idA) = 100
   \<and> fst (deliverTransfer (signed_by addrA) abc_state
     (transfer_from_A [TransferOutput 0 (IdLikeChainID idA) 1 []] 1) [7]) = Success
   \<and> FetchBalance (snd (deliverTransfer (signed_by addrA) abc_state
     (transfer_from_A [TransferOutput 0 (IdLikeChainID idA) 1 []] 1) [7])) (IdLikeChainID idA) = 100
   \<and> FetchNextNonce (snd (deliverTransfer (signed_by addrA) abc_state
     (transfer_from_A [TransferOutput 0 (IdLikeChainID idA) 1 []] 1) [7])) idA = 2"
proof -
  let ?t = "TransferOutput 0 (IdLikeChainID idA) 1 []"
  let ?tx = "transfer_from_A [?t] 1"
  have f: "From ?tx = IdLikeChainID idA" "ToList ?tx = [?t]" "Fee ?tx = 0" "Nonce ?tx = 1"
    by (simp_all add: transfer_from_A_def)
  have h1: "validateTransferTransactionFormat abc_state ?tx" by (simp add: eval_defs)
  have h2: "IdentifierToLikeChainID abc_state (From ?tx) = Some idA" by (simp add: eval_defs)
  have h3: "validateTransferSignature (signed_by addrA) abc_state ?tx" by (simp add: eval_defs)
  have h4: "Nonce ?tx = FetchNextNonce abc_state idA" by (simp add: eval_defs)
  have h7: "IdentifierToLikeChainID abc_state (To ?t) = Some idA" by (simp add: eval_defs)
  have b: "FetchBalance abc_state (IdLikeChainID idA) = 100" "FetchNextNonce abc_state idA = 1"
    by (simp_all add: eval_defs)
  have h8: "int (Value ?t) \<le> FetchBalance abc_state (IdLikeChainID idA)"
    unfolding b by (simp add: TransferOutput_def)
  show ?thesis
    using self_transfer_keeps_balance [OF h1 h2 h3 h4 f(3) f(2) h7 h8, of "[7]"] h1 h2 h3 b
    unfolding f by simp
qed

section \<open>The order of the validation steps\<close>

lemma validateTransferSignature_iff:
  "validateTransferSignature recover state tx \<longleftrightarrow>
     (\<exists>a. recover tx = Some a
        \<and> (From tx = IdAddr a \<or> (\<exists>i. From tx = IdLikeChainID i \<and> a \<in> acc_addr state i)))"
  by (cases "From tx")
     (auto simp: validateTransferSignature_def IsLikeChainIDHasAddress_def split: option.splits)

lemma early_steps:
  "\<not> validateTransferTransactionFormat state tx \<Longrightarrow>
     checkTransfer recover state tx = TransferCheckTxInvalidFormat
     \<and> deliver recover state tx txHash = (TransferDeliverTxInvalidFormat, state)"
  "validateTransferTransactionFormat state tx \<Longrightarrow>
   IdentifierToLikeChainID state (From tx) = None \<Longrightarrow>
     checkTransfer recover state tx = TransferCheckTxSenderNotRegistered
     \<and> deliver recover state tx txHash = (TransferDeliverTxSenderNotRegistered, state)"
  "validateTransferTransactionFormat state tx \<Longrightarrow>
   IdentifierToLikeChainID state (From tx) = Some senderID \<Longrightarrow>
   \<not> validateTransferSignature recover state tx \<Longrightarrow>
     checkTransfer recover state tx = TransferCheckTxInvalidSignature
     \<and> deliver recover state tx txHash = (TransferDeliverTxInvalidSignature, state)"
  "validateTransferTransactionFormat state tx \<Longrightarrow>
   IdentifierToLikeChainID state (From tx) = Some senderID \<Longrightarrow>
   validateTransferSignature recover state tx \<Longrightarrow>
   FetchNextNonce state senderID < Nonce tx \<Longrightarrow>
     checkTransfer recover state tx = TransferCheckTxInvalidNonce
     \<and> deliver recover state tx txHash = (TransferDeliverTxInvalidNonce, state)"
  "validateTransferTransactionFormat state tx \<Longrightarrow>
   IdentifierToLikeChainID state (From tx) = Some senderID \<Longrightarrow>
   validateTransferSignature recover state tx \<Longrightarrow>
   Nonce tx < FetchNextNonce state senderID \<Longrightarrow>
     checkTransfer recover state tx = TransferCheckTxDuplicated
     \<and> deliver recover state tx txHash = (TransferDeliverTxDuplicated, state)"
  by (simp_all add: checkTransfer_def deliver_def Let_def)

lemma Success_passes_all:
  assumes "fst (deliver recover state tx txHash) = Success"
  shows "validateTransferTransactionFormat state tx
     \<and> (\<exists>i. IdentifierToLikeChainID state (From tx) = Some i
          \<and> validateTransferSignature recover state tx
          \<and> Nonce tx = FetchNextNonce state i
          \<and> (\<forall>t \<in> set (ToList tx). \<not> receiver_without_account state (To t))
          \<and> (\<forall>k \<le> length (ToList tx).
                prefix_total (Fee tx) (ToList tx) k \<le> FetchBalance state (IdLikeChainID i)))"
proof -
  have f: "validateTransferTransactionFormat state tx"
  proof (rule ccontr)
    assume "\<not> validateTransferTransactionFormat state tx"
    from early_steps(1) [OF this, where recover = recover and txHash = txHash] assms
    show False by simp
  qed
  obtain i where i: "IdentifierToLikeChainID state (From tx) = Some i"
  proof (cases "IdentifierToLikeChainID state (From tx)")
    case None
    from early_steps(2) [OF f None, where recover = recover and txHash = txHash] assms
    show ?thesis by simp
  next
    case (Some j)
    then show ?thesis by (rule that)
  qed
  have s: "validateTransferSignature recover state tx"
  proof (rule ccontr)
    assume "\<not> validateTransferSignature recover state tx"
    from early_steps(3) [OF f i this, where txHash = txHash] assms
    show False by simp
  qed
  have n: "Nonce tx = FetchNextNonce state i"
  proof (cases "Nonce tx" "FetchNextNonce state i" rule: linorder_cases)
    case less
    from early_steps(5) [OF f i s less, where txHash = txHash] assms show ?thesis by simp
  next
    case equal
    then show ?thesis .
  next
    case greater
    from early_steps(4) [OF f i s greater, where txHash = txHash] assms show ?thesis by simp
  qed
  show ?thesis
    using f i s n deliver_Success_iff [OF f i s n, of txHash] assms by simp
qed

text \<open>
  C3. CheckTx and DeliverTx of a Transfer run the steps format, sender registered,
  signature, nonce, balance in this order and return the error of the first step that
  fails: InvalidFormat; else SenderNotRegistered when the sender does not resolve; else
  InvalidSignature when recovery fails or the recovered address is neither the sender
  address nor bound to the sender ID; else InvalidNonce for a nonce above the next nonce
  and Duplicated for one below; else NotEnoughBalance or InvalidReceiver (the latter only
  with an output whose receiver is an ID with no account); Success only when every step
  passes.
\<close>

theorem validation_order:
  "(\<not> validateTransferTransactionFormat state tx \<longrightarrow>
      checkTransfer recover state tx = TransferCheckTxInvalidFormat
      \<and> fst (deliver recover state tx txHash) = TransferDeliverTxInvalidFormat)
   \<and> (validateTransferTransactionFormat state tx
        \<and> IdentifierToLikeChainID state (From tx) = None \<longrightarrow>
      checkTransfer recover state tx = TransferCheckTxSenderNotRegistered
      \<and> fst (deliver recover state tx txHash) = TransferDeliverTxSenderNotRegistered)
   \<and> (validateTransferTransactionFormat state tx
        \<and> IdentifierToLikeChainID state (From tx) = Some senderID
        \<and> \<not> validateTransferSignature recover state tx \<longrightarrow>
      checkTransfer recover state tx = TransferCheckTxInvalidSignature
      \<and> fst (deliver recover state tx txHash) = TransferDeliverTxInvalidSignature)
   \<and> (validateTransferSignature recover state tx \<longleftrightarrow>
        (\<exists>a. recover tx = Some a
           \<and> (From tx = IdAddr a \<or> (\<exists>i. From tx = IdLikeChainID i \<and> a \<in> acc_addr state i))))
   \<and> (validateTransferTransactionFormat state tx
        \<and> IdentifierToLikeChainID state (From tx) = Some senderID
        \<and> validateTransferSignature recover state tx
        \<and> FetchNextNonce state senderID < Nonce tx \<longrightarrow>
      checkTransfer recover state tx = TransferCheckTxInvalidNonce
      \<and> fst (deliver recover state tx txHash) = TransferDeliverTxInvalidNonce)
   \<and> (validateTransferTransactionFormat state tx
        \<and> IdentifierToLikeChainID state (From tx) = Some senderID
        \<and> validateTransferSignature recover state tx
        \<and> Nonce tx < FetchNextNonce state senderID \<longrightarrow>
      checkTransfer recover state tx = TransferCheckTxDuplicated
      \<and> fst (deliver recover state tx txHash) = TransferDeliverTxDuplicated)
   \<and> (validateTransferTransactionFormat state tx
        \<and> IdentifierToLikeChainID state (From tx) = Some senderID
        \<and> validateTransferSignature recover state tx
        \<and> Nonce tx = FetchNextNonce state senderID \<longrightarrow>
      checkTransfer recover state tx
        \<in> {Success, TransferCheckTxNotEnoughBalance, TransferCheckTxInvalidReceiver}
      \<and> fst (deliver recover state tx txHash)
        \<in> {Success, TransferDeliverTxNotEnoughBalance, TransferDeliverTxInvalidReceiver}
      \<and> kind (checkTransfer recover state tx) = kind (fst (deliver recover state tx txHash))
      \<and> (kind (checkTransfer recover state tx) = Some InvalidReceiver \<longrightarrow>
           (\<exists>t \<in> set (ToList tx). receiver_without_account state (To t))))
   \<and> (checkTransfer recover state tx = Success \<or> fst (deliver recover state tx txHash) = Success
        \<longrightarrow>
      validateTransferTransactionFormat state tx
      \<and> (\<exists>i. IdentifierToLikeChainID state (From tx) = Some i
           \<and> validateTransferSignature recover state tx
           \<and> Nonce tx = FetchNextNonce state i
           \<and> (\<forall>t \<in> set (ToList tx). \<not> receiver_without_account state (To t))
           \<and> (\<forall>k \<le> length (ToList tx).
                 prefix_total (Fee tx) (ToList tx) k \<le> FetchBalance state (IdLikeChainID i))))"
proof -
  note k = check_deliver_kind [of recover state tx txHash]
  have s: "checkTransfer recover state tx = Success
             \<longleftrightarrow> fst (deliver recover state tx txHash) = Success"
    using k kind_None_iff [of "checkTransfer recover state tx"]
          kind_None_iff [of "fst (deliver recover state tx txHash)"] by simp
  have step5: "checkTransfer recover state tx
        \<in> {Success, TransferCheckTxNotEnoughBalance, TransferCheckTxInvalidReceiver}
      \<and> fst (deliver recover state tx txHash)
        \<in> {Success, TransferDeliverTxNotEnoughBalance, TransferDeliverTxInvalidReceiver}
      \<and> kind (checkTransfer recover state tx) = kind (fst (deliver recover state tx txHash))
      \<and> (kind (checkTransfer recover state tx) = Some InvalidReceiver \<longrightarrow>
           (\<exists>t \<in> set (ToList tx). receiver_without_account state (To t)))"
    if h: "validateTransferTransactionFormat state tx"
          "IdentifierToLikeChainID state (From tx) = Some senderID"
          "validateTransferSignature recover state tx"
          "Nonce tx = FetchNextNonce state senderID"
  proof -
    note d = deliver_step5_result [OF h, of txHash]
    have c: "checkTransfer recover state tx
        \<in> {Success, TransferCheckTxNotEnoughBalance, TransferCheckTxInvalidReceiver}"
    proof -
      have "checkTransfer_loop state b ts tot = Some r \<Longrightarrow>
              r = TransferCheckTxInvalidReceiver \<or> r = TransferCheckTxNotEnoughBalance"
        for b ts tot r
        by (induction ts arbitrary: tot) (auto simp: Let_def split: if_splits)
      then show ?thesis
        unfolding checkTransfer_past_nonce [OF h] by (auto split: option.splits)
    qed
    have r: "kind (checkTransfer recover state tx) = Some InvalidReceiver \<longrightarrow>
           (\<exists>t \<in> set (ToList tx). receiver_without_account state (To t))"
    proof
      assume "kind (checkTransfer recover state tx) = Some InvalidReceiver"
      with k d have "fst (deliver recover state tx txHash) = TransferDeliverTxInvalidReceiver"
        by auto
      then show "\<exists>t \<in> set (ToList tx). receiver_without_account state (To t)"
        by (rule deliver_InvalidReceiver [OF h])
    qed
    show ?thesis using c d k r by simp
  qed
  have e1: "\<not> validateTransferTransactionFormat state tx \<longrightarrow>
      checkTransfer recover state tx = TransferCheckTxInvalidFormat
      \<and> fst (deliver recover state tx txHash) = TransferDeliverTxInvalidFormat"
    using early_steps(1) [where recover = recover and txHash = txHash and state = state and tx = tx]
    by simp
  have e2: "validateTransferTransactionFormat state tx
        \<and> IdentifierToLikeChainID state (From tx) = None \<longrightarrow>
      checkTransfer recover state tx = TransferCheckTxSenderNotRegistered
      \<and> fst (deliver recover state tx txHash) = TransferDeliverTxSenderNotRegistered"
    using early_steps(2) [where recover = recover and txHash = txHash and state = state and tx = tx]
    by simp
  have e3: "validateTransferTransactionFormat state tx
        \<and> IdentifierToLikeChainID state (From tx) = Some senderID
        \<and> \<not> validateTransferSignature recover state tx \<longrightarrow>
      checkTransfer recover state tx = TransferCheckTxInvalidSignature
      \<and> fst (deliver recover state tx txHash) = TransferDeliverTxInvalidSignature"
    using early_steps(3) [where recover = recover and txHash = txHash and state = state and tx = tx
            and senderID = senderID]
    by simp
  have e4: "validateTransferTransactionFormat state tx
        \<and> IdentifierToLikeChainID state (From tx) = Some senderID
        \<and> validateTransferSignature recover state tx
        \<and> FetchNextNonce state senderID < Nonce tx \<longrightarrow>
      checkTransfer recover state tx = TransferCheckTxInvalidNonce
      \<and> fst (deliver recover state tx txHash) = TransferDeliverTxInvalidNonce"
    using early_steps(4) [where recover = recover and txHash = txHash and state = state and tx = tx
            and senderID = senderID]
    by simp
  have e5: "validateTransferTransactionFormat state tx
        \<and> IdentifierToLikeChainID state (From tx) = Some senderID
        \<and> validateTransferSignature recover state tx
        \<and> Nonce tx < FetchNextNonce state senderID \<longrightarrow>
      checkTransfer recover state tx = TransferCheckTxDuplicated
      \<and> fst (deliver recover state tx txHash) = TransferDeliverTxDuplicated"
    using early_steps(5) [where recover = recover and txHash = txHash and state = state and tx = tx
            and senderID = senderID]
    by simp
  have e6: "validateTransferTransactionFormat state tx
        \<and> IdentifierToLikeChainID state (From tx) = Some senderID
        \<and> validateTransferSignature recover state tx
        \<and> Nonce tx = FetchNextNonce state senderID \<longrightarrow>
      checkTransfer recover state tx
        \<in> {Success, TransferCheckTxNotEnoughBalance, TransferCheckTxInvalidReceiver}
      \<and> fst (deliver recover state tx txHash)
        \<in> {Success, TransferDeliverTxNotEnoughBalance, TransferDeliverTxInvalidReceiver}
      \<and> kind (checkTransfer recover state tx) = kind (fst (deliver recover state tx txHash))
      \<and> (kind (checkTransfer recover state tx) = Some InvalidReceiver \<longrightarrow>
           (\<exists>t \<in> set (ToList tx). receiver_without_account state (To t)))"
    using step5 by blast
  have e7: "checkTransfer recover state tx = Success
              \<or> fst (deliver recover state tx txHash) = Success \<longrightarrow>
      validateTransferTransactionFormat state tx
      \<and> (\<exists>i. IdentifierToLikeChainID state (From tx) = Some i
           \<and> validateTransferSignature recover state tx
           \<and> Nonce tx = FetchNextNonce state i
           \<and> (\<forall>t \<in> set (ToList tx). \<not> receiver_without_account state (To t))
           \<and> (\<forall>k \<le> length (ToList tx).
                 prefix_total (Fee tx) (ToList tx) k \<le> FetchBalance state (IdLikeChainID i)))"
    using Success_passes_all [of recover state tx txHash] s by blast
  from e1 e2 e3 validateTransferSignature_iff [of recover state tx] e4 e5 e6 e7
  show ?thesis by (intro conjI)
qed


text \<open>
  One transaction for each outcome, on the test accounts: no output; a sender address
  with no binding; a signature of B on a transfer from A; nonce 5 and nonce 0 against
  next nonce 1; outputs 50 + 51 against balance 100; a receiver ID with no account; and a
  valid payment of 1 to B.
\<close>

theorem validation_order_witness:
  "\<not> validateTransferTransactionFormat abc_state (transfer_from_A [] 1)
   \<and> checkTransfer (signed_by addrA) abc_state (transfer_from_A [] 1)
       = TransferCheckTxInvalidFormat
   \<and> fst (deliver (signed_by addrA) abc_state (transfer_from_A [] 1) [7])
       = TransferDeliverTxInvalidFormat
   \<and> IdentifierToLikeChainID abc_state (IdAddr addrX) = None
   \<and> checkTransfer (signed_by addrX) abc_state
        \<lparr>From = IdAddr addrX, ToList = [TransferOutput 0 (IdLikeChainID idB) 1 []],
         Nonce = 1, Fee = 0, Sig = sig65\<rparr>
       = TransferCheckTxSenderNotRegistered
   \<and> fst (deliver (signed_by addrX) abc_state
        \<lparr>From = IdAddr addrX, ToList = [TransferOutput 0 (IdLikeChainID idB) 1 []],
         Nonce = 1, Fee = 0, Sig = sig65\<rparr> [7])
       = TransferDeliverTxSenderNotRegistered
   \<and> \<not> validateTransferSignature (signed_by addrB) abc_state
        (transfer_from_A [TransferOutput 0 (IdLikeChainID idB) 1 []] 1)
   \<and> checkTransfer (signed_by addrB) abc_state
        (transfer_from_A [TransferOutput 0 (IdLikeChainID idB) 1 []] 1)
       = TransferCheckTxInvalidSignature
   \<and> fst (deliver (signed_by addrB) abc_state
        (transfer_from_A [TransferOutput 0 (IdLikeChainID idB) 1 []] 1) [7])
       = TransferDeliverTxInvalidSignature
   \<and> FetchNextNonce abc_state idA = 1
   \<and> checkTransfer (signed_by addrA) abc_state
        (transfer_from_A [TransferOutput 0 (IdLikeChainID idB) 1 []] 5)
       = TransferCheckTxInvalidNonce
   \<and> fst (deliver (signed_by addrA) abc_state
        (transfer_from_A [TransferOutput 0 (IdLikeChainID idB) 1 []] 5) [7])
       = TransferDeliverTxInvalidNonce
   \<and> checkTransfer (signed_by addrA) abc_state
        (transfer_from_A [TransferOutput 0 (IdLikeChainID idB) 1 []] 0)
       = TransferCheckTxDuplicated
   \<and> fst (deliver (signed_by addrA) abc_state
        (transfer_from_A [TransferOutput 0 (IdLikeChainID idB) 1 []] 0) [7])
       = TransferDeliverTxDuplicated
   \<and> checkTransfer (signed_by addrA) abc_state
        (transfer_from_A [TransferOutput 0 (IdLikeChainID idB) 50 [],
                          TransferOutput 1 (IdLikeChainID idC) 51 []] 1)
       = TransferCheckTxNotEnoughBalance
   \<and> fst (deliver (signed_by addrA) abc_state
        (transfer_from_A [TransferOutput 0 (IdLikeChainID idB) 50 [],
                          TransferOutput 1 (IdLikeChainID idC) 51 []] 1) [7])
       = TransferDeliverTxNotEnoughBalance
   \<and> checkTransfer (signed_by addrA) abc_state
        (transfer_from_A [TransferOutput 0 (IdLikeChainID idZ) 1 []] 1)
       = TransferCheckTxInvalidReceiver
   \<and> fst (deliver (signed_by addrA) abc_state
        (transfer_from_A [TransferOutput 0 (IdLikeChainID idZ) 1 []] 1) [7])
       = TransferDeliverTxInvalidReceiver
   \<and> receiver_without_account abc_state (IdLikeChainID idZ)
   \<and> checkTransfer (signed_by addrA) abc_state
        (transfer_from_A [TransferOutput 0 (IdLikeChainID idB) 1 []] 1) = Success
   \<and> fst (deliver (signed_by addrA) abc_state
        (transfer_from_A [TransferOutput 0 (IdLikeChainID idB) 1 []] 1) [7]) = Success
   \<and> validateTransferTransactionFormat abc_state
        (transfer_from_A [TransferOutput 0 (IdLikeChainID idB) 1 []] 1)
   \<and> validateTransferSignature (signed_by addrA) abc_state
        (transfer_from_A [TransferOutput 0 (IdLikeChainID idB) 1 []] 1)"
proof -
  let ?payB = "\<lambda>n. transfer_from_A [TransferOutput 0 (IdLikeChainID idB) 1 []] n"
  let ?fromX = "\<lparr>From = IdAddr addrX, ToList = [TransferOutput 0 (IdLikeChainID idB) 1 []],
         Nonce = 1, Fee = 0, Sig = sig65\<rparr>"
  let ?over = "transfer_from_A [TransferOutput 0 (IdLikeChainID idB) 50 [],
                          TransferOutput 1 (IdLikeChainID idC) 51 []] 1"
  let ?toZ = "transfer_from_A [TransferOutput 0 (IdLikeChainID idZ) 1 []] 1"
  have A: "IdentifierToLikeChainID abc_state (IdLikeChainID idA) = Some idA"
          "FetchNextNonce abc_state idA = 1"
          "\<And>outs n. From (transfer_from_A outs n) = IdLikeChainID idA"
          "\<And>outs n. Nonce (transfer_from_A outs n) = n"
    by (simp_all add: eval_defs)
  have fmt: "\<not> validateTransferTransactionFormat abc_state (transfer_from_A [] 1)"
            "validateTransferTransactionFormat abc_state (?payB n)"
            "validateTransferTransactionFormat abc_state ?fromX"
            "validateTransferTransactionFormat abc_state ?over"
            "validateTransferTransactionFormat abc_state ?toZ" for n
    by (simp_all add: eval_defs)
  have sg: "\<not> validateTransferSignature (signed_by addrB) abc_state (?payB 1)"
           "validateTransferSignature (signed_by addrA) abc_state (?payB n)"
           "validateTransferSignature (signed_by addrA) abc_state ?over"
           "validateTransferSignature (signed_by addrA) abc_state ?toZ" for n
    by (simp_all add: eval_defs)
  have X: "IdentifierToLikeChainID abc_state (From ?fromX) = None" by (simp add: eval_defs)
  have Z: "receiver_without_account abc_state (IdLikeChainID idZ)" by (simp add: eval_defs)
  have w1: "checkTransfer (signed_by addrA) abc_state (transfer_from_A [] 1)
       = TransferCheckTxInvalidFormat
     \<and> fst (deliver (signed_by addrA) abc_state (transfer_from_A [] 1) [7])
       = TransferDeliverTxInvalidFormat"
    by (rule mp [OF validation_order [of abc_state "transfer_from_A [] 1" "signed_by addrA" "[7]" idA,
                       THEN conjunct1] fmt(1)])
  have w2: "checkTransfer (signed_by addrX) abc_state ?fromX = TransferCheckTxSenderNotRegistered
     \<and> fst (deliver (signed_by addrX) abc_state ?fromX [7]) = TransferDeliverTxSenderNotRegistered"
    by (rule mp [OF validation_order [of abc_state ?fromX "signed_by addrX" "[7]" idA,
                       THEN conjunct2, THEN conjunct1] conjI [OF fmt(3) X]])
  have n5: "FetchNextNonce abc_state idA < Nonce (?payB 5)" unfolding A by simp
  have n0: "Nonce (?payB 0) < FetchNextNonce abc_state idA" unfolding A by simp
  have w3: "checkTransfer (signed_by addrB) abc_state (?payB 1) = TransferCheckTxInvalidSignature
     \<and> fst (deliver (signed_by addrB) abc_state (?payB 1) [7]) = TransferDeliverTxInvalidSignature"
    by (rule mp [OF validation_order [of abc_state "?payB 1" "signed_by addrB" "[7]" idA,
                       THEN conjunct2, THEN conjunct2, THEN conjunct1]])
       (simp only: fmt(2) sg(1) A simp_thms)
  have w4: "checkTransfer (signed_by addrA) abc_state (?payB 5) = TransferCheckTxInvalidNonce
     \<and> fst (deliver (signed_by addrA) abc_state (?payB 5) [7]) = TransferDeliverTxInvalidNonce"
    by (rule mp [OF validation_order [of abc_state "?payB 5" "signed_by addrA" "[7]" idA,
                       THEN conjunct2, THEN conjunct2, THEN conjunct2, THEN conjunct2,
                       THEN conjunct1]])
       (simp only: fmt(2) sg(2) A(1,3) n5 simp_thms)
  have w5: "checkTransfer (signed_by addrA) abc_state (?payB 0) = TransferCheckTxDuplicated
     \<and> fst (deliver (signed_by addrA) abc_state (?payB 0) [7]) = TransferDeliverTxDuplicated"
    by (rule mp [OF validation_order [of abc_state "?payB 0" "signed_by addrA" "[7]" idA,
                       THEN conjunct2, THEN conjunct2, THEN conjunct2, THEN conjunct2,
                       THEN conjunct2, THEN conjunct1]])
       (simp only: fmt(2) sg(2) A(1,3) n0 simp_thms)
  have w6: "checkTransfer (signed_by addrA) abc_state ?over = TransferCheckTxNotEnoughBalance
     \<and> fst (deliver (signed_by addrA) abc_state ?over [7]) = TransferDeliverTxNotEnoughBalance"
    by (simp add: eval_defs)
  have w7: "checkTransfer (signed_by addrA) abc_state ?toZ = TransferCheckTxInvalidReceiver
     \<and> fst (deliver (signed_by addrA) abc_state ?toZ [7]) = TransferDeliverTxInvalidReceiver"
    by (simp add: eval_defs)
  have w8: "checkTransfer (signed_by addrA) abc_state (?payB 1) = Success
     \<and> fst (deliver (signed_by addrA) abc_state (?payB 1) [7]) = Success"
    by (simp add: eval_defs)
  have w9: "validateTransferTransactionFormat abc_state (?payB 1)
     \<and> validateTransferSignature (signed_by addrA) abc_state (?payB 1)"
    by (simp only: fmt(2) sg(2) simp_thms)
  have X': "IdentifierToLikeChainID abc_state (IdAddr addrX) = None" using X by simp
  from fmt(1) w1 X' w2 sg(1) w3 A(2) w4 w5 w6 w7 Z w8 w9 show ?thesis
    by (intro conjI) (simp_all only: simp_thms)
qed

section \<open>Permanence of the transaction status\<close>




lemma deliver_bindings [simp]:
  "acc_addr (snd (deliver recover state tx txHash)) = acc_addr state"
  "addr_id (snd (deliver recover state tx txHash)) = addr_id state"
  by (simp_all add: deliver_def Let_def split: option.splits sum.splits prod.splits)

lemma deliver_loop_SetStatus [simp]:
  "deliver_loop (SetStatus s h st) b n ts tot tr = deliver_loop s b n ts tot tr"
  by (rule deliver_loop_state_cong) simp




lemma deliver_past_nonce_cases:
  assumes "fst (deliver recover state tx txHash) \<in>
             {Success, TransferDeliverTxNotEnoughBalance, TransferDeliverTxInvalidReceiver}"
  shows "validateTransferTransactionFormat state tx
     \<and> (\<exists>i. IdentifierToLikeChainID state (From tx) = Some i
          \<and> validateTransferSignature recover state tx
          \<and> Nonce tx = FetchNextNonce state i)"
proof -
  have f: "validateTransferTransactionFormat state tx"
  proof (rule ccontr)
    assume "\<not> validateTransferTransactionFormat state tx"
    from early_steps(1) [OF this, where recover = recover and txHash = txHash] assms
    show False by simp
  qed
  obtain i where i: "IdentifierToLikeChainID state (From tx) = Some i"
  proof (cases "IdentifierToLikeChainID state (From tx)")
    case None
    from early_steps(2) [OF f None, where recover = recover and txHash = txHash] assms
    show ?thesis by simp
  next
    case (Some j)
    then show ?thesis by (rule that)
  qed
  have s: "validateTransferSignature recover state tx"
  proof (rule ccontr)
    assume "\<not> validateTransferSignature recover state tx"
    from early_steps(3) [OF f i this, where txHash = txHash] assms
    show False by simp
  qed
  have n: "Nonce tx = FetchNextNonce state i"
  proof (cases "Nonce tx" "FetchNextNonce state i" rule: linorder_cases)
    case less
    from early_steps(5) [OF f i s less, where txHash = txHash] assms show ?thesis by simp
  next
    case equal
    then show ?thesis .
  next
    case greater
    from early_steps(4) [OF f i s greater, where txHash = txHash] assms show ?thesis by simp
  qed
  show ?thesis using f i s n by simp
qed








section \<open>The balances after a delivered transfer\<close>

lemma balanceKey_MinusBalance [simp]:
  "balanceKey (MinusBalance s x a) y = balanceKey s y"
  by (simp add: MinusBalance_def del: writeBalance.simps)

lemma update_fresh: "k \<notin> fst ` set al \<Longrightarrow> AList.update k v al = al @ [(k, v)]"
  by (induction al) auto

lemma targetIden_key:
  "fst (targetIden s n t) = Allocated n \<or> fst (targetIden s n t) = InTx (To_ptr t)"
  by (simp add: targetIden_def split: option.splits)

lemma balanceKey_targetIden:
  "balanceKey s (snd (targetIden s n t)) = balanceKey s (To t)"
  by (cases "To t") (auto simp: targetIden_def split: option.splits if_splits)

lemma deliver_loop_transfers:
  assumes "deliver_loop s b n ts tot tr = Inr (tot', tr')"
    and "distinct (map To_ptr ts)"
    and "\<And>m. Allocated m \<in> fst ` set tr \<Longrightarrow> m < n"
    and "\<And>p. InTx p \<in> fst ` set tr \<Longrightarrow> p \<notin> To_ptr ` set ts"
  shows "tot' = tot + values_sum ts \<and> tr' = tr @ loop_entries s n ts"
  using assms
proof (induction ts arbitrary: n tot tr)
  case Nil
  then show ?case by simp
next
  case (Cons t rest)
  have good: "\<not> receiver_without_account s (To t)"
  proof
    assume "receiver_without_account s (To t)"
    from deliver_loop_Cons_bad [OF this] Cons.prems(1) show False by simp
  qed
  have enough: "\<not> b < tot + int (Value t)"
  proof
    assume "b < tot + int (Value t)"
    from deliver_loop_Cons_short [OF good this] Cons.prems(1) show False by simp
  qed
  let ?k = "fst (targetIden s n t)"
  let ?tr = "AList.update ?k (snd (targetIden s n t), int (Value t)) tr"
  have fresh: "?k \<notin> fst ` set tr"
  proof
    assume in_tr: "?k \<in> fst ` set tr"
    from targetIden_key [of s n t] show False
    proof
      assume "?k = Allocated n"
      with in_tr Cons.prems(3) [of n] show False by simp
    next
      assume "?k = InTx (To_ptr t)"
      with in_tr Cons.prems(4) [of "To_ptr t"] show False by simp
    qed
  qed
  then have tr: "?tr = tr @ [(?k, (snd (targetIden s n t), int (Value t)))]"
    by (rule update_fresh)
  have step: "deliver_loop s b (Suc n) rest (tot + int (Value t)) ?tr = Inr (tot', tr')"
    using Cons.prems(1) by (simp only: deliver_loop_Cons_next [OF good enough])
  have d: "distinct (map To_ptr rest)" using Cons.prems(2) by simp
  have a: "m < Suc n" if "Allocated m \<in> fst ` set ?tr" for m
  proof -
    from that have "Allocated m = ?k \<or> Allocated m \<in> fst ` set tr" unfolding tr by auto
    then show ?thesis
    proof
      assume "Allocated m = ?k"
      with targetIden_key [of s n t] show ?thesis by auto
    next
      assume "Allocated m \<in> fst ` set tr"
      from Cons.prems(3) [OF this] show ?thesis by simp
    qed
  qed
  have p: "q \<notin> To_ptr ` set rest" if "InTx q \<in> fst ` set ?tr" for q
  proof -
    from that have "InTx q = ?k \<or> InTx q \<in> fst ` set tr" unfolding tr by auto
    then show ?thesis
    proof
      assume "InTx q = ?k"
      with targetIden_key [of s n t] have "q = To_ptr t" by auto
      with Cons.prems(2) show ?thesis by auto
    next
      assume "InTx q \<in> fst ` set tr"
      from Cons.prems(4) [OF this] show ?thesis by simp
    qed
  qed
  from Cons.IH [OF step d a p]
  show ?case unfolding tr by (simp add: add.assoc)
qed

lemma credited_loop_entries:
  "sum_list (map (\<lambda>e. if balanceKey s (fst (snd e)) = Some k then snd (snd e) else 0)
               (loop_entries s n ts))
     = credited s k ts"
  by (induction ts arbitrary: n) (simp_all add: credited_def balanceKey_targetIden)

lemma credited_cong:
  "(\<And>x. balanceKey s' x = balanceKey s x) \<Longrightarrow> credited s' k ts = credited s k ts"
  by (simp add: credited_def)

lemma loop_entries_cong:
  "(\<And>x. IdentifierToLikeChainID s' x = IdentifierToLikeChainID s x) \<Longrightarrow>
   loop_entries s' n ts = loop_entries s n ts"
  by (induction ts arbitrary: n) (simp_all add: targetIden_def)

lemma delivered_readBalance:
  assumes "fst (deliver recover state tx txHash) = Success"
    and "distinct (map To_ptr (ToList tx))"
    and "IdentifierToLikeChainID state (From tx) = Some senderID"
  shows "readBalance (snd (deliver recover state tx txHash)) (Some k)
     = readBalance state (Some k) + credited state k (ToList tx)
       - (if k = AccBalance senderID then int (Fee tx) + values_sum (ToList tx) else 0)"
proof -
  from assms(1) have "fst (deliver recover state tx txHash)
       \<in> {Success, TransferDeliverTxNotEnoughBalance, TransferDeliverTxInvalidReceiver}" by simp
  from deliver_past_nonce_cases [OF this] assms(3) have
    h: "validateTransferTransactionFormat state tx"
       "IdentifierToLikeChainID state (From tx) = Some senderID"
       "validateTransferSignature recover state tx"
       "Nonce tx = FetchNextNonce state senderID" by auto
  let ?b = "FetchBalance state (IdLikeChainID senderID)"
  let ?s1 = "IncrementNextNonce state senderID"
  obtain tot tr where loop:
    "deliver_loop state ?b 0 (ToList tx) (int (Fee tx)) [] = Inr (tot, tr)"
    using assms(1) deliver_loop_result [of state ?b 0 "ToList tx" "int (Fee tx)" "[]"]
    unfolding deliver_past_nonce [OF h]
    by (cases "deliver_loop state ?b 0 (ToList tx) (int (Fee tx)) []") auto
  have "tot = int (Fee tx) + values_sum (ToList tx) \<and> tr = [] @ loop_entries state 0 (ToList tx)"
    by (rule deliver_loop_transfers [OF loop assms(2)]) simp_all
  then have tot: "tot = int (Fee tx) + values_sum (ToList tx)"
    and tr: "tr = loop_entries state 0 (ToList tx)" by simp_all
  have post: "snd (deliver recover state tx txHash)
                = MinusBalance (credit_all ?s1 tr) (IdLikeChainID senderID) tot"
    unfolding deliver_past_nonce [OF h] loop by simp
  have le: "loop_entries ?s1 0 (ToList tx) = loop_entries state 0 (ToList tx)"
    by (rule loop_entries_cong) simp
  have "readBalance (snd (deliver recover state tx txHash)) (Some k)
     = readBalance state (Some k) + credited state k (ToList tx)
       - (if k = AccBalance senderID then tot else 0)"
    unfolding post tr
    using credited_loop_entries [of ?s1 k 0 "ToList tx"] credited_cong [of ?s1 state k "ToList tx"]
    by (auto simp add: readBalance_MinusBalance readBalance_credit_all le
          simp del: readBalance.simps)
  then show ?thesis unfolding tot .
qed

lemma balanceKey_cong:
  "addr_id s' = addr_id s \<Longrightarrow> balanceKey s' x = balanceKey s x"
  by (cases x) simp_all

text \<open>
  C2. After a delivered (successful) Transfer whose outputs each carry their own
  receiver object, as in every transaction decoded from the wire, the balance kept under
  any key has grown by the sum of the values of all outputs to that receiver, duplicates
  included; the sender's balance has in addition been debited once, by the fee plus the
  sum of all output values.
\<close>

theorem duplicate_outputs_are_summed:
  assumes "fst (deliverTransfer recover state tx txHash) = Success"
    and "distinct (map To_ptr (ToList tx))"
    and "IdentifierToLikeChainID state (From tx) = Some senderID"
    and "balanceKey state x = Some k"
  shows "FetchBalance (snd (deliverTransfer recover state tx txHash)) x
     = FetchBalance state x + credited state k (ToList tx)
       - (if k = AccBalance senderID then int (Fee tx) + values_sum (ToList tx) else 0)"
proof -
  have ok: "fst (deliver recover state tx txHash) = Success"
    using assms(1) by (simp only: deliverTransfer_result)
  have kx: "balanceKey (snd (deliver recover state tx txHash)) x = Some k"
    using assms(4) balanceKey_cong [of "snd (deliver recover state tx txHash)" state x] by simp
  show ?thesis
    unfolding FetchBalance_deliverTransfer
    unfolding FetchBalance_def kx assms(4)
    by (rule delivered_readBalance [OF ok assms(2,3)])
qed

text \<open>
  On the test accounts: A pays B twice in one transaction, 3 and 4, naming B by the same
  ID in both outputs. B ends with 207 and A with 93.
\<close>

theorem duplicate_outputs_are_summed_witness:
  "fst (deliverTransfer (signed_by addrA) abc_state
          (transfer_from_A [TransferOutput 0 (IdLikeChainID idB) 3 [],
                            TransferOutput 1 (IdLikeChainID idB) 4 []] 1) [7]) = Success
   \<and> distinct (map To_ptr [TransferOutput 0 (IdLikeChainID idB) 3 [],
                            TransferOutput 1 (IdLikeChainID idB) 4 []])
   \<and> IdentifierToLikeChainID abc_state (IdLikeChainID idA) = Some idA
   \<and> FetchBalance abc_state (IdLikeChainID idB) = 200
   \<and> FetchBalance abc_state (IdLikeChainID idA) = 100
   \<and> FetchBalance (snd (deliverTransfer (signed_by addrA) abc_state
          (transfer_from_A [TransferOutput 0 (IdLikeChainID idB) 3 [],
                            TransferOutput 1 (IdLikeChainID idB) 4 []] 1) [7]))
        (IdLikeChainID idB) = 207
   \<and> FetchBalance (snd (deliverTransfer (signed_by addrA) abc_state
          (transfer_from_A [TransferOutput 0 (IdLikeChainID idB) 3 [],
                            TransferOutput 1 (IdLikeChainID idB) 4 []] 1) [7]))
        (IdLikeChainID idA) = 93"
proof -
  let ?outs = "[TransferOutput 0 (IdLikeChainID idB) 3 [], TransferOutput 1 (IdLikeChainID idB) 4 []]"
  let ?tx = "transfer_from_A ?outs 1"
  have f: "From ?tx = IdLikeChainID idA" "ToList ?tx = ?outs" "Fee ?tx = 0"
    by (simp_all add: transfer_from_A_def)
  have h1: "fst (deliverTransfer (signed_by addrA) abc_state ?tx [7]) = Success"
    by (simp add: eval_defs)
  have h2: "distinct (map To_ptr (ToList ?tx))"
    by (simp add: transfer_from_A_def TransferOutput_def)
  have h3: "IdentifierToLikeChainID abc_state (From ?tx) = Some idA" by (simp add: eval_defs)
  have kB: "balanceKey abc_state (IdLikeChainID idB) = Some (AccBalance idB)" by simp
  have kA: "balanceKey abc_state (IdLikeChainID idA) = Some (AccBalance idA)" by simp
  have b: "FetchBalance abc_state (IdLikeChainID idB) = 200"
          "FetchBalance abc_state (IdLikeChainID idA) = 100"
    by (simp_all add: eval_defs)
  have c: "credited abc_state (AccBalance idB) ?outs = 7"
          "credited abc_state (AccBalance idA) ?outs = 0"
          "values_sum ?outs = 7" "AccBalance idB \<noteq> AccBalance idA"
    by (simp_all add: credited_def values_sum_def abc_defs)
  have B: "FetchBalance (snd (deliverTransfer (signed_by addrA) abc_state ?tx [7]))
             (IdLikeChainID idB) = 207"
    using duplicate_outputs_are_summed [OF h1 h2 h3 kB] unfolding f b c
    by (simp add: idA_def idB_def)
  have A: "FetchBalance (snd (deliverTransfer (signed_by addrA) abc_state ?tx [7]))
             (IdLikeChainID idA) = 93"
    using duplicate_outputs_are_summed [OF h1 h2 h3 kA] unfolding f b c by simp
  from h1 h2 h3 b B A show ?thesis unfolding f by (intro conjI)
qed

text \<open>
  The condition on the receiver objects matters: were two outputs to the unbound address
  X built around one and the same identifier object, the second write into the map would
  replace the first, X would be credited 4 and A debited 7.
\<close>

lemma shared_receiver_object:
  "FetchBalance (snd (deliverTransfer (signed_by addrA) abc_state
          (transfer_from_A [TransferOutput 0 (IdAddr addrX) 3 [],
                            TransferOutput 0 (IdAddr addrX) 4 []] 1) [7]))
        (IdAddr addrX) = 4
   \<and> FetchBalance (snd (deliverTransfer (signed_by addrA) abc_state
          (transfer_from_A [TransferOutput 0 (IdAddr addrX) 3 [],
                            TransferOutput 0 (IdAddr addrX) 4 []] 1) [7]))
        (IdLikeChainID idA) = 93"
  by (simp add: eval_defs)

section \<open>Credit to an address with no binding\<close>

lemma credited_ge:
  "t \<in> set ts \<Longrightarrow> balanceKey state (To t) = Some k \<Longrightarrow> int (Value t) \<le> credited state k ts"
proof (induction ts)
  case Nil
  then show ?case by simp
next
  case (Cons u rest)
  have nn: "0 \<le> credited state k rest"
    unfolding credited_def by (rule sum_list_nonneg) auto
  show ?case
  proof (cases "t = u")
    case True
    with Cons.prems nn show ?thesis by (simp add: credited_def)
  next
    case False
    with Cons have "int (Value t) \<le> credited state k rest" by simp
    then show ?thesis by (simp add: credited_def)
  qed
qed

text \<open>
  C6. After a delivered Transfer (each output carrying its own receiver object) with an
  output to an address X that has no binding, the values of the outputs to X have been
  added to the unclaimed balance of X: \<^verbatim>\<open>address_info\<close> of X returns the synthetic
  record with empty id, that balance (the credited value itself when X held nothing
  before) and next nonce 0; \<^verbatim>\<open>account_info\<close> of X fails with InvalidIdentifier; and once
  X registers, the new account has that balance and next nonce 1.
\<close>

theorem unregistered_address_credit:
  assumes "fst (deliverTransfer recover state tx txHash) = Success"
    and "distinct (map To_ptr (ToList tx))"
    and "addr_id state X = None"
    and "t \<in> set (ToList tx)" and "To t = IdAddr X"
  shows "address_info (snd (deliverTransfer recover state tx txHash)) X
           = \<lparr>ID = [],
              Balance = FetchBalance state (IdAddr X)
                          + credited state (AddrUnclaimed X) (ToList tx),
              NextNonce = 0\<rparr>
     \<and> int (Value t) \<le> credited state (AddrUnclaimed X) (ToList tx)
     \<and> account_info (snd (deliverTransfer recover state tx txHash)) (IdAddr X)
           = Inl QueryInvalidIdentifier
     \<and> account_info (register_account (snd (deliverTransfer recover state tx txHash)) X newID)
          (IdLikeChainID newID)
           = Inr \<lparr>ID = newID,
                  Balance = FetchBalance state (IdAddr X)
                              + credited state (AddrUnclaimed X) (ToList tx),
                  NextNonce = 1\<rparr>
     \<and> account_info (register_account (snd (deliverTransfer recover state tx txHash)) X newID)
          (IdAddr X)
           = Inr \<lparr>ID = newID,
                  Balance = FetchBalance state (IdAddr X)
                              + credited state (AddrUnclaimed X) (ToList tx),
                  NextNonce = 1\<rparr>"
proof -
  let ?post = "snd (deliverTransfer recover state tx txHash)"
  let ?d = "snd (deliver recover state tx txHash)"
  let ?amount = "FetchBalance state (IdAddr X) + credited state (AddrUnclaimed X) (ToList tx)"
  have ok: "fst (deliver recover state tx txHash) = Success"
    using assms(1) by (simp only: deliverTransfer_result)
  then have "fst (deliver recover state tx txHash)
       \<in> {Success, TransferDeliverTxNotEnoughBalance, TransferDeliverTxInvalidReceiver}" by simp
  from deliver_past_nonce_cases [OF this] obtain senderID where
    sender: "IdentifierToLikeChainID state (From tx) = Some senderID" by blast
  have unbound: "addr_id ?post X = None"
    using assms(3) by (simp add: deliverTransfer_fields)
  have key: "balanceKey state (IdAddr X) = Some (AddrUnclaimed X)"
    using assms(3) by simp
  have key': "balanceKey ?d (IdAddr X) = Some (AddrUnclaimed X)"
    using assms(3) by simp
  have rb: "readBalance ?d (Some (AddrUnclaimed X))
          = readBalance state (Some (AddrUnclaimed X))
              + credited state (AddrUnclaimed X) (ToList tx)
              - (if AddrUnclaimed X = AccBalance senderID
                 then int (Fee tx) + values_sum (ToList tx) else 0)"
    by (rule delivered_readBalance [OF ok assms(2) sender])
  have "FetchBalance ?d (IdAddr X) = ?amount"
    unfolding FetchBalance_def key key' using rb by (simp del: readBalance.simps)
  then have bal: "FetchBalance ?post (IdAddr X) = ?amount"
    by (simp only: FetchBalance_deliverTransfer)
  have slot: "(case addr_unclaimed ?post X of Some b \<Rightarrow> b | None \<Rightarrow> 0) = ?amount"
    using bal unbound by (simp add: FetchBalance_def)
  have a1: "address_info ?post X = \<lparr>ID = [], Balance = ?amount, NextNonce = 0\<rparr>"
    using unbound bal by (simp add: address_info_def)
  have a2: "int (Value t) \<le> credited state (AddrUnclaimed X) (ToList tx)"
    using assms(4) by (rule credited_ge) (simp add: assms(3,5))
  have a3: "account_info ?post (IdAddr X) = Inl QueryInvalidIdentifier"
    using unbound by (simp add: account_info_def)
  have a4: "account_info (register_account ?post X newID) (IdLikeChainID newID)
           = Inr \<lparr>ID = newID, Balance = ?amount, NextNonce = 1\<rparr>"
    using slot
    by (simp add: account_info_def register_account_def IsLikeChainIDRegistered_def
          FetchBalance_def FetchNextNonce_def)
  have a5: "account_info (register_account ?post X newID) (IdAddr X)
           = Inr \<lparr>ID = newID, Balance = ?amount, NextNonce = 1\<rparr>"
    using slot
    by (simp add: account_info_def register_account_def FetchBalance_def FetchNextNonce_def)
  from a1 a2 a3 a4 a5 show ?thesis by (intro conjI)
qed


text \<open>
  On the test accounts: A pays 1 to B's address and 1 to the unbound address X. A ends
  with 98 and B with 201; \<^verbatim>\<open>address_info\<close> of X shows the empty id, balance 1 and next
  nonce 0; \<^verbatim>\<open>account_info\<close> of X fails; after X registers, its account has balance 1.
\<close>

theorem unregistered_address_credit_witness:
  "fst (deliverTransfer (signed_by addrA) abc_state
          (transfer_from_A [TransferOutput 0 (IdAddr addrB) 1 [],
                            TransferOutput 1 (IdAddr addrX) 1 []] 1) [7]) = Success
   \<and> distinct (map To_ptr [TransferOutput 0 (IdAddr addrB) 1 [],
                            TransferOutput 1 (IdAddr addrX) 1 []])
   \<and> addr_id abc_state addrX = None
   \<and> address_info (snd (deliverTransfer (signed_by addrA) abc_state
          (transfer_from_A [TransferOutput 0 (IdAddr addrB) 1 [],
                            TransferOutput 1 (IdAddr addrX) 1 []] 1) [7])) addrX
       = \<lparr>ID = [], Balance = 1, NextNonce = 0\<rparr>
   \<and> account_info (snd (deliverTransfer (signed_by addrA) abc_state
          (transfer_from_A [TransferOutput 0 (IdAddr addrB) 1 [],
                            TransferOutput 1 (IdAddr addrX) 1 []] 1) [7])) (IdAddr addrX)
       = Inl QueryInvalidIdentifier
   \<and> account_info (register_account (snd (deliverTransfer (signed_by addrA) abc_state
          (transfer_from_A [TransferOutput 0 (IdAddr addrB) 1 [],
                            TransferOutput 1 (IdAddr addrX) 1 []] 1) [7])) addrX idX)
        (IdLikeChainID idX)
       = Inr \<lparr>ID = idX, Balance = 1, NextNonce = 1\<rparr>
   \<and> FetchBalance (snd (deliverTransfer (signed_by addrA) abc_state
          (transfer_from_A [TransferOutput 0 (IdAddr addrB) 1 [],
                            TransferOutput 1 (IdAddr addrX) 1 []] 1) [7])) (IdLikeChainID idA)
       = 98
   \<and> FetchBalance (snd (deliverTransfer (signed_by addrA) abc_state
          (transfer_from_A [TransferOutput 0 (IdAddr addrB) 1 [],
                            TransferOutput 1 (IdAddr addrX) 1 []] 1) [7])) (IdLikeChainID idB)
       = 201"
proof -
  let ?t = "TransferOutput 1 (IdAddr addrX) 1 []"
  let ?outs = "[TransferOutput 0 (IdAddr addrB) 1 [], ?t]"
  let ?tx = "transfer_from_A ?outs 1"
  let ?post = "snd (deliverTransfer (signed_by addrA) abc_state ?tx [7])"
  have f: "ToList ?tx = ?outs" by (simp add: transfer_from_A_def)
  have h1: "fst (deliverTransfer (signed_by addrA) abc_state ?tx [7]) = Success"
    by (simp add: eval_defs)
  have h2: "distinct (map To_ptr (ToList ?tx))"
    by (simp add: transfer_from_A_def TransferOutput_def)
  have h3: "addr_id abc_state addrX = None" by (simp add: abc_defs)
  have h4: "?t \<in> set (ToList ?tx)" unfolding f by simp
  have h5: "To ?t = IdAddr addrX" by (simp add: TransferOutput_def)
  have b: "FetchBalance abc_state (IdAddr addrX) = 0"
    by (simp add: FetchBalance_def abc_defs)
  have c: "credited abc_state (AddrUnclaimed addrX) ?outs = 1"
    by (simp add: credited_def abc_defs)
  note w = unregistered_address_credit [OF h1 h2 h3 h4 h5, of idX, unfolded f b c]
  have w1: "address_info ?post addrX = \<lparr>ID = [], Balance = 1, NextNonce = 0\<rparr>"
    using w by simp
  have w3: "account_info ?post (IdAddr addrX) = Inl QueryInvalidIdentifier"
    using w by blast
  have w4: "account_info (register_account ?post addrX idX) (IdLikeChainID idX)
       = Inr \<lparr>ID = idX, Balance = 1, NextNonce = 1\<rparr>"
    using w by simp
  have A: "FetchBalance ?post (IdLikeChainID idA) = 98"
    by (simp add: eval_defs)
  have B: "FetchBalance ?post (IdLikeChainID idB) = 201"
    by (simp add: eval_defs)
  have h2': "distinct (map To_ptr ?outs)" using h2 unfolding f .
  from h1 h2' h3 w1 w3 w4 A B show ?thesis by (intro conjI)
qed

section \<open>Retention of versions\<close>







section \<open>The order of the credits\<close>

lemma writeBalance_commute:
  "k \<noteq> k' \<Longrightarrow>
   writeBalance (writeBalance s k a) k' b = writeBalance (writeBalance s k' b) k a"
  by (cases "(s, k, a)" rule: writeBalance.cases; cases "(s, k', b)" rule: writeBalance.cases)
     (auto simp: fun_upd_twist)

lemma writeBalance_twice:
  "writeBalance (writeBalance s k a) k b = writeBalance s k b"
  by (cases "(s, k, a)" rule: writeBalance.cases) simp_all

lemma readBalance_writeBalance_other:
  "k \<noteq> k' \<Longrightarrow> readBalance (writeBalance s k a) k' = readBalance s k'"
  by (cases "(s, k, a)" rule: writeBalance.cases; cases "(s, k')" rule: readBalance.cases) auto

lemma AddBalance_commute:
  "AddBalance (AddBalance s x a) y b = AddBalance (AddBalance s y b) x a"
proof (cases "balanceKey s x = balanceKey s y")
  case True
  show ?thesis
  proof (cases "balanceKey s y")
    case None
    with True show ?thesis by (simp add: AddBalance_def FetchBalance_def)
  next
    case (Some k)
    with True show ?thesis
      by (simp add: AddBalance_def FetchBalance_def writeBalance_twice readBalance_writeBalance
            add.assoc add.commute [of a b]
          del: writeBalance.simps readBalance.simps)
  qed
next
  case False
  then have ne: "balanceKey s y \<noteq> balanceKey s x" by simp
  show ?thesis
    using False
    by (simp add: AddBalance_def FetchBalance_def readBalance_writeBalance_other [OF False]
         readBalance_writeBalance_other [OF ne] writeBalance_commute [OF False]
        del: writeBalance.simps readBalance.simps)
qed

lemma credit_all_fold:
  "credit_all s es = fold (\<lambda>e st. AddBalance st (fst (snd e)) (snd (snd e))) es s"
  by (induction s es rule: credit_all.induct) simp_all

text \<open>
  Go leaves the order in which \<^verbatim>\<open>range\<close> visits a map open. The credits commute, so
  the state after the second loop of \<^verbatim>\<open>deliver\<close> is the same for every order.
\<close>

lemma credit_all_any_order:
  assumes "mset es' = mset es"
  shows "credit_all s es' = credit_all s es"
proof -
  have "fold (\<lambda>e st. AddBalance st (fst (snd e)) (snd (snd e))) es'
      = fold (\<lambda>e st. AddBalance st (fst (snd e)) (snd (snd e))) es"
    by (rule fold_multiset_equiv [OF _ assms]) (auto simp: fun_eq_iff AddBalance_commute)
  then show ?thesis by (simp add: credit_all_fold)
qed

end
